theory Spec2Isabelle
  imports Main "HOL-Library.Sublist"
begin

section \<open>Values, errors and the outside world\<close>

text \<open>
  The client (\<open>src/Solcial/src/Social.jsx\<close>) is sequential asynchronous JavaScript: every
  \<open>await\<close> is a call into something outside the file (the RPC node, the wallet, the bridge
  API, a timer, React's state setters). The model threads a \<open>world\<close> through the code: the state
  of everything outside (\<open>ext\<close>, of an arbitrary type) and the \<open>trace\<close> of the effects the
  code has caused so far, in order. What the outside answers is given by an \<open>env\<close> record of
  operations on \<open>ext\<close>; the theorems hold for every such record.
\<close>

text \<open>
  A thrown JavaScript \<open>Error\<close>: the code only reads \<open>err.name\<close> and \<open>err.message\<close>.
  Whatever is thrown is taken to be such an object, with a string as its message, as the
  file's own \<open>throw new Error(...)\<close> and the libraries' rejections are; a thrown \<open>null\<close> or
  \<open>undefined\<close>, on which the handlers' \<open>err.message\<close> would throw in turn, is not modelled.
\<close>

datatype error = Error (name: string) (message: string)

text \<open>\<open>s.includes(sub)\<close> on strings.\<close>

fun str_includes :: "string \<Rightarrow> string \<Rightarrow> bool" where
  "str_includes [] sub = (sub = [])"
| "str_includes (c # cs) sub = (prefix sub (c # cs) \<or> str_includes cs sub)"

text \<open>
  A JavaScript value as far as \<open>typeof v === 'string'\<close> and truthiness can tell: the value
  \<open>provider.sendAndConfirm\<close> resolves to is tested both ways.
\<close>

datatype jsval = JUndefined | JNull | JStr string | JObj

fun truthy :: "jsval \<Rightarrow> bool" where
  "truthy (JStr s) = (s \<noteq> [])"
| "truthy JObj = True"
| "truthy _ = False"

fun typeof :: "jsval \<Rightarrow> string" where
  "typeof JUndefined = ''undefined''"
| "typeof (JStr s) = ''string''"
| "typeof _ = ''object''"

text \<open>How an \<open>async\<close> function ends: \<open>return v\<close>, falling off its end (the caller sees
  \<open>undefined\<close>), or a rejection.\<close>

datatype 'a completion = Return 'a | ReturnUndefined | Throw error

datatype account_kind = Forum | Post | Reply | PostReport | ReplyReport

text \<open>The methods of the RPC client that the code calls (on the connection, the provider and
  the program's accounts); each stands for a request to the Solana RPC endpoint.\<close>

datatype rpc_method =
    GetLatestBlockhash
  | SimulateTransaction
  | SendAndConfirm
  | GetTransaction
  | Fetch account_kind
  | GetAccountInfo
  | GetBalance
  | GetVersion

text \<open>Lines of console output that the theorems refer to (the rest is not modelled).\<close>

datatype log_msg =
    SimulationFailed nat
  | SimulationSucceeded
  | SimulationError nat
  | SendingDespiteSimulationFailure
  | TransactionSent jsval
  | AttemptFailed nat
  | TransactionErrorCaught
  | RefreshingData nat
  | DataRefreshFailed nat
  | AllRefreshAttemptsFailed
  | BridgeStatus nat jsval
  | SolBalance nat
  | BridgeComplete

text \<open>The instructions of the on-chain program that the client builds.\<close>

datatype instruction =
    SetComputeUnitLimit nat
  | SetComputeUnitPrice nat
  | CreatePost string
  | CreatePostWithSolcial string
  | CreateReply string
  | CreateReplyWithSolcial string
  | ReportPost string
  | ReportPostWithSolcial string
  | ReportReply string
  | ReportReplyWithSolcial string
  | ResolveReport bool string
  | DeletePost
  | DeleteReply
  | CloseReport bool
  | CloseForum

text \<open>
  One effect. \<open>Call m e\<close> is one call of the method \<open>m\<close> of the RPC client, with the error it
  failed with, if any. It is a request to the RPC endpoint unless the client library
  refuses the call before it sends anything; the code cannot tell the two apart, and the
  trace does not either. \<open>Sleep d j\<close> is \<open>setTimeout\<close> for \<open>d + j\<close> milliseconds, \<open>j\<close> being the
  random jitter. \<open>Build i\<close> is \<open>program.methods.<i>(...).instruction()\<close>. The \<open>Set...\<close> events are
  calls of React state setters; \<open>Http\<close> and \<open>Evm\<close> are requests to the bridge API and to the
  EVM wallet.
\<close>

datatype 'v event =
    Call rpc_method "error option"
  | Sleep nat nat
  | GetLogs
  | Log log_msg
  | Build instruction
  | SetLoading bool
  | SetError "string option"
  | SetAccounts account_kind "'v option"
  | SetForm string
  | Http string
  | Evm string

record ('x, 'v) world =
  ext :: 'x
  trace :: "'v event list"

definition emit :: "'v event \<Rightarrow> ('x, 'v) world \<Rightarrow> ('x, 'v) world" where
  "emit e w = w\<lparr>trace := trace w @ [e]\<rparr>"

text \<open>One call of the RPC client: the outside answers, the call is recorded.\<close>

definition request ::
  "rpc_method \<Rightarrow> ('x \<Rightarrow> (error + 'a) \<times> 'x) \<Rightarrow> ('x, 'v) world \<Rightarrow> (error + 'a) \<times> ('x, 'v) world" where
  "request m fn w =
     (case fn (ext w) of
        (Inl err, x) \<Rightarrow> (Inl err, \<lparr>ext = x, trace = trace w @ [Call m (Some err)]\<rparr>)
      | (Inr v, x) \<Rightarrow> (Inr v, \<lparr>ext = x, trace = trace w @ [Call m None]\<rparr>))"

section \<open>withRetry\<close>

text \<open>
  \<^verbatim>\<open>const withRetry = async (fn, maxRetries = 5, baseDelay = 1000) => {
  for (let attempt = 1; attempt <= maxRetries; attempt++) {
    try { return await fn(); }
    catch (err) {
      if (err.message.includes('429') || err.message.includes('Too Many Requests')) {
        if (attempt === maxRetries) throw new Error('Max retries reached due to rate limiting');
        const delay = baseDelay * 2 ** (attempt - 1) + Math.random() * 100;
        await new Promise(resolve => setTimeout(resolve, delay));
      } else { throw err; }
    } } };\<close>

  Every \<open>fn\<close> the file passes is one request to the RPC endpoint, so \<open>fn\<close> is an operation
  on \<open>ext\<close> and comes with the name \<open>m\<close> of the request. \<open>maxRetries\<close> is a count, a
  \<open>nat\<close>. \<open>rnd\<close> is \<open>Math.random() * 100\<close>, drawn from the outside and rounded down to whole
  milliseconds as \<open>setTimeout\<close> does.
\<close>

definition rate_limited :: "error \<Rightarrow> bool" where
  "rate_limited err \<longleftrightarrow> str_includes (message err) ''429'' \<or> str_includes (message err) ''Too Many Requests''"

function withRetry_from ::
  "('x \<Rightarrow> nat \<times> 'x) \<Rightarrow> rpc_method \<Rightarrow> ('x \<Rightarrow> (error + 'a) \<times> 'x) \<Rightarrow> nat \<Rightarrow> nat \<Rightarrow> nat \<Rightarrow>
     ('x, 'v) world \<Rightarrow> 'a completion \<times> ('x, 'v) world" where
  "withRetry_from rnd m fn maxRetries baseDelay attempt w =
     (if attempt \<le> maxRetries then
        (case request m fn w of
           (Inr v, w1) \<Rightarrow> (Return v, w1)
         | (Inl err, w1) \<Rightarrow>
             if rate_limited err then
               if attempt = maxRetries
               then (Throw (Error ''Error'' ''Max retries reached due to rate limiting''), w1)
               else (case rnd (ext w1) of
                       (j, x) \<Rightarrow>
                         withRetry_from rnd m fn maxRetries baseDelay (attempt + 1)
                           \<lparr>ext = x, trace = trace w1 @ [Sleep (baseDelay * 2 ^ (attempt - 1)) j]\<rparr>)
             else (Throw err, w1))
      else (ReturnUndefined, w))"
  by pat_completeness auto
termination
  by (relation "measure (\<lambda>(rnd, m, fn, maxRetries, baseDelay, attempt, w). maxRetries + 1 - attempt)") auto

definition withRetry ::
  "('x \<Rightarrow> nat \<times> 'x) \<Rightarrow> rpc_method \<Rightarrow> ('x \<Rightarrow> (error + 'a) \<times> 'x) \<Rightarrow> nat \<Rightarrow> nat \<Rightarrow>
     ('x, 'v) world \<Rightarrow> 'a completion \<times> ('x, 'v) world" where
  "withRetry rnd m fn maxRetries baseDelay w = withRetry_from rnd m fn maxRetries baseDelay 1 w"

section \<open>sendAndConfirmWithRetry\<close>

text \<open>
  What the code reads of the answers of the RPC node. \<open>sim_err\<close> is
  \<open>simulationResult.value.err\<close>: \<open>None\<close> when it is \<open>null\<close>, otherwise its JSON text;
  \<open>sim_logs\<close> is the JSON text of \<open>simulationResult.value.logs\<close>. \<open>meta_err\<close> is
  \<open>status.meta?.err\<close> in the same way.
\<close>

record sim_result =
  sim_err :: "string option"
  sim_logs :: string

datatype tx_status = TxStatus (meta_err: "string option")

text \<open>An entry of \<open>transaction.signatures\<close>: a string, or an object whose \<open>signature\<close> is a
  byte buffer or \<open>null\<close>.\<close>

datatype sig_entry = SigString string | SigPair "nat list option"

record transaction =
  instructions :: "instruction list"
  recentBlockhash :: "string option"
  feePayer :: "string option"
  signatures :: "sig_entry list"

text \<open>An HTTP response: \<open>response.ok\<close>, \<open>response.status\<close> and the body as text.\<close>

record http_response =
  resp_ok :: bool
  resp_status :: string
  resp_body :: string

text \<open>
  Everything the file calls and does not define: the RPC connection, the wallet-backed
  provider, the libraries. \<open>sendAndConfirm\<close> has the wallet sign, so it also returns the
  transaction as it leaves it. \<open>getLogs\<close> is \<open>await err.getLogs?.(provider.connection) || []\<close>
  as JSON text. \<open>fetchAccounts k\<close> is \<open>program.account.<k>.fetch/all\<close> and \<open>decodeAccounts k\<close> the
  conversion of its answer to what the component stores (\<open>toBase58\<close>, \<open>toNumber\<close>, ...), which
  can throw. \<open>getAccountInfo\<close> answers whether the account exists, \<open>getBalance\<close> in lamports,
  \<open>getVersion\<close> whether the answer has a \<open>solana-core\<close> entry. \<open>bridgeCreateTx\<close>,
  \<open>bridgeOrderId\<close> and \<open>bridgeOrderStatus\<close> are the three requests to the bridge API (the last
  two with \<open>.json()\<close> and the field read from it); \<open>evmSendTransaction\<close> and \<open>evmWait\<close> are
  the EVM wallet's \<open>signer.sendTransaction\<close> on the body of the prepared order, and
  \<open>txResponse.wait()\<close>.
\<close>

record ('x, 'v) env =
  random100 :: "'x \<Rightarrow> nat \<times> 'x"
  walletPublicKey :: "string option"
  getLatestBlockhash :: "'x \<Rightarrow> (error + string) \<times> 'x"
  serialize :: "transaction \<Rightarrow> error + string"
  simulateTransaction :: "transaction \<Rightarrow> 'x \<Rightarrow> (error + sim_result) \<times> 'x"
  sendAndConfirm :: "transaction \<Rightarrow> 'x \<Rightarrow> (error + jsval) \<times> transaction \<times> 'x"
  getTransaction :: "string \<Rightarrow> 'x \<Rightarrow> (error + tx_status option) \<times> 'x"
  getLogs :: "error \<Rightarrow> 'x \<Rightarrow> (error + string) \<times> 'x"
  bs58encode :: "nat list \<Rightarrow> string"
  fetchAccounts :: "account_kind \<Rightarrow> 'x \<Rightarrow> (error + 'v) \<times> 'x"
  decodeAccounts :: "account_kind \<Rightarrow> 'v \<Rightarrow> error + 'v"
  getAccountInfo :: "string \<Rightarrow> 'x \<Rightarrow> (error + bool) \<times> 'x"
  getBalance :: "string \<Rightarrow> 'x \<Rightarrow> (error + nat) \<times> 'x"
  getVersion :: "'x \<Rightarrow> (error + bool) \<times> 'x"
  bridgeCreateTx :: "'x \<Rightarrow> (error + http_response) \<times> 'x"
  evmSendTransaction :: "string \<Rightarrow> 'x \<Rightarrow> (error + string) \<times> 'x"
  evmWait :: "string \<Rightarrow> 'x \<Rightarrow> (error + unit) \<times> 'x"
  bridgeOrderId :: "string \<Rightarrow> 'x \<Rightarrow> (error + jsval) \<times> 'x"
  bridgeOrderStatus :: "jsval \<Rightarrow> 'x \<Rightarrow> (error + jsval) \<times> 'x"

text \<open>How one pass through the body of the \<open>for\<close> loop ends.\<close>

datatype flow = Returned jsval | Continued | Raised error

text \<open>A count as decimal text, for \<open>`... after ${maxRetries} attempts ...`\<close>.\<close>

function show_nat :: "nat \<Rightarrow> string" where
  "show_nat n =
     (if n < 10 then [''0123456789'' ! n]
      else show_nat (n div 10) @ [''0123456789'' ! (n mod 10)])"
  by pat_completeness auto
termination
  by (relation "measure id") auto

text \<open>
  Lines 98-122: the simulation and its own \<open>try/catch\<close>. The result is \<open>True\<close> when control goes
  on to the send and \<open>False\<close> at a \<open>continue\<close>. The \<open>throw new Error('Simulation failed: ...')\<close> of
  line 109 is inside the \<open>try\<close>, so it lands in \<open>catch (simErr)\<close> like a failed request.
\<close>

definition sim_catch :: "nat \<Rightarrow> nat \<Rightarrow> ('x, 'v) world \<Rightarrow> bool \<times> ('x, 'v) world" where
  "sim_catch attempt maxRetries w =
     (let w1 = emit (Log (SimulationError attempt)) w in
      if attempt = maxRetries then (True, emit (Log SendingDespiteSimulationFailure) w1)
      else (False, w1))"

definition simulate_phase ::
  "('x, 'v) env \<Rightarrow> transaction \<Rightarrow> nat \<Rightarrow> nat \<Rightarrow> ('x, 'v) world \<Rightarrow> bool \<times> ('x, 'v) world" where
  "simulate_phase env tx attempt maxRetries w =
     (case withRetry (random100 env) SimulateTransaction (simulateTransaction env tx) 5 1000 w of
        (Return res, w1) \<Rightarrow>
          (case sim_err res of
             Some e \<Rightarrow>
               let w2 = emit (Log (SimulationFailed attempt)) w1 in
               if attempt = maxRetries then sim_catch attempt maxRetries w2 else (False, w2)
           | None \<Rightarrow> (True, emit (Log SimulationSucceeded) w1))
      | (ReturnUndefined, w1) \<Rightarrow> sim_catch attempt maxRetries w1
      | (Throw simErr, w1) \<Rightarrow> sim_catch attempt maxRetries w1)"

text \<open>Line 124: the send, one request.\<close>

definition send ::
  "('x, 'v) env \<Rightarrow> transaction \<Rightarrow> ('x, 'v) world \<Rightarrow> (error + jsval) \<times> transaction \<times> ('x, 'v) world" where
  "send env tx w =
     (case sendAndConfirm env tx (ext w) of
        (Inl err, tx', x) \<Rightarrow> (Inl err, tx', \<lparr>ext = x, trace = trace w @ [Call SendAndConfirm (Some err)]\<rparr>)
      | (Inr v, tx', x) \<Rightarrow> (Inr v, tx', \<lparr>ext = x, trace = trace w @ [Call SendAndConfirm None]\<rparr>))"

text \<open>
  Lines 133-167: the confirmation. \<open>confirm_step\<close> is the body of its \<open>try\<close> (\<open>Inl\<close> is what
  it throws), \<open>confirm_catch\<close> the \<open>catch (confirmErr)\<close> (\<open>Inl\<close> is what it rethrows).
\<close>

definition confirm_catch :: "jsval \<Rightarrow> jsval \<Rightarrow> error \<Rightarrow> error + jsval" where
  "confirm_catch signature finalSignature confirmErr =
     (if str_includes (message confirmErr) ''WrongSize'' \<or>
         str_includes (message confirmErr) ''Invalid param'' \<or>
         str_includes (message confirmErr) ''failed to get transaction''
      then Inr signature
      else if truthy finalSignature then Inr finalSignature
      else Inl confirmErr)"

definition confirm_step ::
  "('x, 'v) env \<Rightarrow> jsval \<Rightarrow> ('x, 'v) world \<Rightarrow> (error + unit) \<times> ('x, 'v) world" where
  "confirm_step env signature w =
     (case signature of
        JStr s \<Rightarrow>
          (case withRetry (random100 env) GetTransaction (getTransaction env s) 5 1000 w of
             (Return (Some status), w1) \<Rightarrow>
               (case meta_err status of
                  Some j \<Rightarrow> (Inl (Error ''Error'' (''Transaction failed: '' @ j)), w1)
                | None \<Rightarrow> (Inr (), w1))
           | (Return None, w1) \<Rightarrow> (Inr (), w1)
           | (ReturnUndefined, w1) \<Rightarrow> (Inr (), w1)
           | (Throw confirmErr, w1) \<Rightarrow> (Inl confirmErr, w1))
      | _ \<Rightarrow>
          (Inl (Error ''Error'' (''Invalid signature type: expected string, got '' @ typeof signature)), w))"

definition confirm_phase ::
  "('x, 'v) env \<Rightarrow> jsval \<Rightarrow> jsval \<Rightarrow> ('x, 'v) world \<Rightarrow> (error + jsval) \<times> ('x, 'v) world" where
  "confirm_phase env signature finalSignature w =
     (case confirm_step env signature w of
        (Inr u, w1) \<Rightarrow> (Inr signature, w1)
      | (Inl confirmErr, w1) \<Rightarrow> (confirm_catch signature finalSignature confirmErr, w1))"

text \<open>
  Lines 88-167, the \<open>try\<close> block of one attempt. It returns how the block ends, the transaction
  and \<open>finalSignature\<close> as it leaves them, and the world. A \<open>withRetry\<close> that returned
  \<open>undefined\<close> would make the destructuring of line 89 throw a \<open>TypeError\<close>.
\<close>

definition sacr_try ::
  "('x, 'v) env \<Rightarrow> transaction \<Rightarrow> jsval \<Rightarrow> nat \<Rightarrow> nat \<Rightarrow> ('x, 'v) world \<Rightarrow>
     flow \<times> transaction \<times> jsval \<times> ('x, 'v) world" where
  "sacr_try env tx finalSignature attempt maxRetries w =
     (case withRetry (random100 env) GetLatestBlockhash (getLatestBlockhash env) 5 1000 w of
        (Throw err, w1) \<Rightarrow> (Raised err, tx, finalSignature, w1)
      | (ReturnUndefined, w1) \<Rightarrow>
          (Raised (Error ''TypeError'' ''Cannot destructure property blockhash of undefined''),
           tx, finalSignature, w1)
      | (Return blockhash, w1) \<Rightarrow>
          (let tx1 = tx\<lparr>recentBlockhash := Some blockhash, feePayer := walletPublicKey env\<rparr> in
           case serialize env tx1 of
             Inl err \<Rightarrow> (Raised err, tx1, finalSignature, w1)
           | Inr serializedTx \<Rightarrow>
               (case simulate_phase env tx1 attempt maxRetries w1 of
                  (False, w2) \<Rightarrow> (Continued, tx1, finalSignature, w2)
                | (True, w2) \<Rightarrow>
                    (case send env tx1 w2 of
                       (Inl err, tx2, w3) \<Rightarrow> (Raised err, tx2, finalSignature, w3)
                     | (Inr signature, tx2, w3) \<Rightarrow>
                         (case confirm_phase env signature signature
                                 (emit (Log (TransactionSent signature)) w3) of
                            (Inr v, w4) \<Rightarrow> (Returned v, tx2, signature, w4)
                          | (Inl err, w4) \<Rightarrow> (Raised err, tx2, signature, w4))))))"

text \<open>Lines 198-200: the first signature of the transaction, as a string.\<close>

definition first_signature :: "('x, 'v) env \<Rightarrow> transaction \<Rightarrow> string" where
  "first_signature env tx =
     (case signatures tx of
        SigString s # _ \<Rightarrow> s
      | SigPair (Some b) # _ \<Rightarrow> bs58encode env b
      | _ \<Rightarrow> bs58encode env [])"

definition fetch_logs ::
  "('x, 'v) env \<Rightarrow> error \<Rightarrow> ('x, 'v) world \<Rightarrow> (error + string) \<times> ('x, 'v) world" where
  "fetch_logs env err w =
     (case getLogs env err (ext w) of (res, x) \<Rightarrow> (res, \<lparr>ext = x, trace = trace w @ [GetLogs]\<rparr>))"

definition already_processed_error :: error where
  "already_processed_error = Error ''Error'' ''Transaction already processed but failed or not found''"

text \<open>Lines 169-233, the \<open>catch (err)\<close> of one attempt; \<open>Raised\<close> now leaves the function.\<close>

definition sacr_catch ::
  "('x, 'v) env \<Rightarrow> transaction \<Rightarrow> jsval \<Rightarrow> nat \<Rightarrow> nat \<Rightarrow> nat \<Rightarrow> error \<Rightarrow> ('x, 'v) world \<Rightarrow>
     flow \<times> transaction \<times> ('x, 'v) world" where
  "sacr_catch env tx finalSignature attempt maxRetries baseDelay err w =
     (let w0 = emit (Log (AttemptFailed attempt)) w; msg = message err in
      if str_includes msg ''Invalid arguments'' then
        (case fetch_logs env err w0 of
           (Inl e, w1) \<Rightarrow> (Raised e, tx, w1)
         | (Inr logs, w1) \<Rightarrow>
             if attempt = maxRetries
             then (Raised (Error ''Error'' (''Invalid arguments error: '' @ msg @ ''. Logs: '' @ logs)), tx, w1)
             else (Continued, tx\<lparr>signatures := []\<rparr>, w1))
      else if str_includes msg ''Invalid params: invalid type: map, expected a string'' \<or>
              str_includes msg ''WrongSize'' \<or>
              str_includes msg ''failed to get transaction'' then
        (if truthy finalSignature then (Returned finalSignature, tx, w0)
         else if attempt < maxRetries then (Continued, tx\<lparr>signatures := []\<rparr>, w0)
         else (Raised (Error ''Error'' (''Max retries reached: '' @ msg)), tx, w0))
      else if str_includes msg ''This transaction has already been processed'' then
        (let signature = first_signature env tx in
         case withRetry (random100 env) GetTransaction (getTransaction env signature) 5 1000 w0 of
           (Return (Some status), w1) \<Rightarrow>
             if meta_err status = None then (Returned (JStr signature), tx, w1)
             else (Raised already_processed_error, tx, w1)
         | (_, w1) \<Rightarrow> (Raised already_processed_error, tx, w1))
      else if str_includes msg ''Blockhash not found'' \<or>
              str_includes msg ''TransactionExpiredBlockheightExceededError'' then
        (Continued, tx, w0)
      else if name err = ''SendTransactionError'' then
        (case fetch_logs env err w0 of
           (Inl e, w1) \<Rightarrow> (Raised e, tx, w1)
         | (Inr logs, w1) \<Rightarrow>
             if attempt = maxRetries
             then (Raised (Error ''Error'' (''Transaction failed after '' @ show_nat maxRetries @
                      '' attempts: '' @ msg @ ''. Logs: '' @ logs)), tx, w1)
             else (case random100 env (ext w1) of
                     (j, x) \<Rightarrow>
                       (Continued, tx,
                        \<lparr>ext = x, trace = trace w1 @ [Sleep (baseDelay * 2 ^ (attempt - 1)) j]\<rparr>)))
      else (Raised err, tx, w0))"

text \<open>One attempt: the \<open>try\<close> block, and the \<open>catch\<close> when it raised.\<close>

definition sacr_attempt ::
  "('x, 'v) env \<Rightarrow> transaction \<Rightarrow> jsval \<Rightarrow> nat \<Rightarrow> nat \<Rightarrow> nat \<Rightarrow> ('x, 'v) world \<Rightarrow>
     flow \<times> transaction \<times> jsval \<times> ('x, 'v) world" where
  "sacr_attempt env tx finalSignature attempt maxRetries baseDelay w =
     (case sacr_try env tx finalSignature attempt maxRetries w of
        (Raised err, tx1, fs1, w1) \<Rightarrow>
          (case sacr_catch env tx1 fs1 attempt maxRetries baseDelay err w1 of
             (fl, tx2, w2) \<Rightarrow> (fl, tx2, fs1, w2))
      | res \<Rightarrow> res)"

text \<open>The loop of line 87; falling out of it, the function returns \<open>undefined\<close>.\<close>

function sacr_from ::
  "('x, 'v) env \<Rightarrow> transaction \<Rightarrow> jsval \<Rightarrow> nat \<Rightarrow> nat \<Rightarrow> nat \<Rightarrow> ('x, 'v) world \<Rightarrow>
     jsval completion \<times> ('x, 'v) world" where
  "sacr_from env tx finalSignature maxRetries baseDelay attempt w =
     (if attempt \<le> maxRetries then
        (case sacr_attempt env tx finalSignature attempt maxRetries baseDelay w of
           (Returned v, tx1, fs1, w1) \<Rightarrow> (Return v, w1)
         | (Raised err, tx1, fs1, w1) \<Rightarrow> (Throw err, w1)
         | (Continued, tx1, fs1, w1) \<Rightarrow> sacr_from env tx1 fs1 maxRetries baseDelay (attempt + 1) w1)
      else (ReturnUndefined, w))"
  by pat_completeness auto
termination
  by (relation "measure (\<lambda>(env, tx, fs, maxRetries, baseDelay, attempt, w). maxRetries + 1 - attempt)") auto

definition sendAndConfirmWithRetry ::
  "('x, 'v) env \<Rightarrow> transaction \<Rightarrow> nat \<Rightarrow> nat \<Rightarrow> ('x, 'v) world \<Rightarrow> jsval completion \<times> ('x, 'v) world" where
  "sendAndConfirmWithRetry env tx maxRetries baseDelay w = sacr_from env tx JNull maxRetries baseDelay 1 w"

section \<open>executeTransactionSilently\<close>

definition undefined_error :: error where
  "undefined_error = Error ''TypeError'' ''Cannot read properties of undefined''"

text \<open>
  One fetch of the refresh (lines 2093-2100, 2102-2114, ...): the accounts are fetched through
  \<open>withRetry\<close>, converted, and stored with the state setter.
\<close>

definition refresh_step ::
  "('x, 'v) env \<Rightarrow> account_kind \<Rightarrow> ('x, 'v) world \<Rightarrow> (error + unit) \<times> ('x, 'v) world" where
  "refresh_step env k w =
     (case withRetry (random100 env) (Fetch k) (fetchAccounts env k) 5 1000 w of
        (Return raw, w1) \<Rightarrow>
          (case decodeAccounts env k raw of
             Inl err \<Rightarrow> (Inl err, w1)
           | Inr v \<Rightarrow> (Inr (), emit (SetAccounts k (Some v)) w1))
      | (ReturnUndefined, w1) \<Rightarrow> (Inl undefined_error, w1)
      | (Throw err, w1) \<Rightarrow> (Inl err, w1))"

fun refresh_steps ::
  "('x, 'v) env \<Rightarrow> account_kind list \<Rightarrow> ('x, 'v) world \<Rightarrow> (error + unit) \<times> ('x, 'v) world" where
  "refresh_steps env [] w = (Inr (), w)"
| "refresh_steps env (k # ks) w =
     (case refresh_step env k w of
        (Inl err, w1) \<Rightarrow> (Inl err, w1)
      | (Inr u, w1) \<Rightarrow> refresh_steps env ks w1)"

text \<open>Lines 2090-2161, the \<open>try\<close> block of one refresh attempt; the forum is fetched only
  \<open>if (forumPda)\<close>.\<close>

definition refresh_attempt ::
  "('x, 'v) env \<Rightarrow> string option \<Rightarrow> nat \<Rightarrow> ('x, 'v) world \<Rightarrow> (error + unit) \<times> ('x, 'v) world" where
  "refresh_attempt env pda attempt w =
     refresh_steps env
       ((if pda \<noteq> None then [Forum] else []) @ [Post, Reply, PostReport, ReplyReport])
       (emit (Log (RefreshingData attempt)) w)"

text \<open>Lines 2089-2169: at most 3 attempts, \<open>break\<close> at the first that succeeds; a failure is
  logged, followed by a wait of one second, and not rethrown.\<close>

function refresh_from ::
  "('x, 'v) env \<Rightarrow> string option \<Rightarrow> nat \<Rightarrow> ('x, 'v) world \<Rightarrow> ('x, 'v) world" where
  "refresh_from env pda attempt w =
     (if attempt \<le> 3 then
        (case refresh_attempt env pda attempt w of
           (Inr u, w1) \<Rightarrow> w1
         | (Inl refreshErr, w1) \<Rightarrow>
             (let w2 = emit (Log (DataRefreshFailed attempt)) w1;
                  w3 = (if attempt = 3 then emit (Log AllRefreshAttemptsFailed) w2 else w2)
              in refresh_from env pda (attempt + 1) (emit (Sleep 1000 0) w3)))
      else w)"
  by pat_completeness auto
termination
  by (relation "measure (\<lambda>(env, pda, attempt, w). 4 - attempt)") auto

text \<open>
  Lines 2075-2172. \<open>transactionFn\<close> is any asynchronous function of the component: it acts on
  the world and returns or throws. The function itself has no \<open>return\<close>: it ends with
  \<open>ReturnUndefined\<close>.
\<close>

definition executeTransactionSilently ::
  "('x, 'v) env \<Rightarrow> string option \<Rightarrow> (('x, 'v) world \<Rightarrow> (error + unit) \<times> ('x, 'v) world) \<Rightarrow>
     ('x, 'v) world \<Rightarrow> unit completion \<times> ('x, 'v) world" where
  "executeTransactionSilently env pda transactionFn w =
     (case transactionFn (emit (SetError None) (emit (SetLoading True) w)) of
        (Inr u, w1) \<Rightarrow> (ReturnUndefined, emit (SetLoading False) (refresh_from env pda 1 w1))
      | (Inl err, w1) \<Rightarrow>
          (ReturnUndefined,
           emit (SetLoading False) (refresh_from env pda 1 (emit (Log TransactionErrorCaught) w1))))"

section \<open>The actions of the component\<close>

text \<open>
  What the closures of the component read: the wallet's public key (as base58 text), the
  forum address once derived, the form fields and the lists on display. Strings are lists
  of code units; \<open>blank\<close> is \<open>!s.trim()\<close>.
\<close>

record post_view =
  post_id :: string
  post_author :: string

record component =
  publicKey :: "string option"
  forumPda :: "string option"
  newPostContent :: string
  newPostCategory :: string
  newReplyContent :: "string \<Rightarrow> string option"
  reportReason :: string
  posts :: "post_view list"
  replies :: "string list"
  useSolcial :: bool
  solcialBalance :: nat
  evmProvider :: bool
  evmAddress :: string
  estimationInfo :: bool
  bridgePostContent :: string
  bridgePostCategory :: string

definition is_space :: "char \<Rightarrow> bool" where
  "is_space c \<longleftrightarrow> (of_char c :: nat) \<in> {9, 10, 11, 12, 13, 32, 160}"

definition blank :: "string \<Rightarrow> bool" where
  "blank s \<longleftrightarrow> list_all is_space s"

definition ADMIN_PUBLIC_KEY :: string where
  "ADMIN_PUBLIC_KEY = ''HrsKTCmdRrvfsknwVwnVguWFXQpLTdgCwQ8nwfFXvvLz''"

definition MODERATOR_PUBLIC_KEYS :: "string list" where
  "MODERATOR_PUBLIC_KEYS =
     [''7XeCnBHGWYxpVfd9zCoU3z8FtiSwoGZYk41jcE2sgBxW'',
      ''5n7BhkbShhh4LCKngM6z7kzKmFaM9jTmJ8XYpzSE7BXU'',
      ''HaNAWXNe3ZUwDKsTA8feKL43r4ViqaNAzzZGWixUvncp'']"

definition POST_FEE_RECIPIENT :: string where
  "POST_FEE_RECIPIENT = ''5n7BhkbShhh4LCKngM6z7kzKmFaM9jTmJ8XYpzSE7BXU''"


text \<open>
  The refusal every action makes when a check fails:
  \<^verbatim>\<open>setError(msg); await executeTransactionSilently(async () => {}, '...'); return;\<close>
\<close>

definition refuse :: "('x, 'v) env \<Rightarrow> component \<Rightarrow> string \<Rightarrow> ('x, 'v) world \<Rightarrow> ('x, 'v) world" where
  "refuse env c msg w =
     snd (executeTransactionSilently env (forumPda c) (\<lambda>w'. (Inr (), w')) (emit (SetError (Some msg)) w))"

text \<open>
  The end of every transaction function: the instruction of the program is built
  (\<open>program.methods...instruction()\<close>), added to a new transaction after the compute-budget
  instructions, and sent with \<open>sendAndConfirmWithRetry(provider, transaction)\<close>. Address
  derivations and conversions before it are library computations on values read from the
  chain; they are left out.
\<close>

definition submit ::
  "('x, 'v) env \<Rightarrow> instruction list \<Rightarrow> instruction \<Rightarrow> ('x, 'v) world \<Rightarrow> (error + unit) \<times> ('x, 'v) world" where
  "submit env budget instr w =
     (case sendAndConfirmWithRetry env
             \<lparr>instructions = budget @ [instr], recentBlockhash = None, feePayer = None, signatures = []\<rparr>
             5 1000 (emit (Build instr) w) of
        (Throw err, w1) \<Rightarrow> (Inl err, w1)
      | (r, w1) \<Rightarrow> (Inr (), w1))"

definition then_set :: "string list \<Rightarrow> (error + unit) \<times> ('x, 'v) world \<Rightarrow> (error + unit) \<times> ('x, 'v) world" where
  "then_set names rw =
     (case rw of
        (Inr u, w) \<Rightarrow> (Inr (), w\<lparr>trace := trace w @ map SetForm names\<rparr>)
      | (Inl err, w) \<Rightarrow> (Inl err, w))"

text \<open>Lines 2297-2364, the transaction function of \<open>createPost\<close>. The fees are in lamports:
  \<open>POST_FEE * LAMPORTS_PER_SOL\<close> is 1000000.\<close>

definition createPost_tx ::
  "('x, 'v) env \<Rightarrow> component \<Rightarrow> string \<Rightarrow> string \<Rightarrow> ('x, 'v) world \<Rightarrow> (error + unit) \<times> ('x, 'v) world" where
  "createPost_tx env c pk categorizedContent w =
     (case withRetry (random100 env) (Fetch Forum) (fetchAccounts env Forum) 5 1000 w of
        (Throw err, w1) \<Rightarrow> (Inl err, w1)
      | (ReturnUndefined, w1) \<Rightarrow> (Inl undefined_error, w1)
      | (Return forumData, w1) \<Rightarrow>
          then_set [''newPostContent'', ''showCreatePost'', ''newPostCategory'']
            (if useSolcial c then
               (if solcialBalance c < 1000
                then (Inl (Error ''Error'' ''Insufficient SOLCIAL tokens.''), w1)
                else submit env [SetComputeUnitLimit 1000000, SetComputeUnitPrice 500000]
                       (CreatePostWithSolcial categorizedContent) w1)
             else
               (case withRetry (random100 env) GetAccountInfo (getAccountInfo env POST_FEE_RECIPIENT) 5 1000 w1 of
                  (Throw err, w2) \<Rightarrow> (Inl err, w2)
                | (Return True, w2) \<Rightarrow>
                    (case withRetry (random100 env) GetBalance (getBalance env pk) 5 1000 w2 of
                       (Throw err, w3) \<Rightarrow> (Inl err, w3)
                     | (Return walletBalance, w3) \<Rightarrow>
                         if walletBalance < 1000000 then (Inl (Error ''Error'' ''Insufficient SOL.''), w3)
                         else submit env [SetComputeUnitLimit 1000000, SetComputeUnitPrice 500000]
                                (CreatePost categorizedContent) w3
                     | (ReturnUndefined, w3) \<Rightarrow>
                         submit env [SetComputeUnitLimit 1000000, SetComputeUnitPrice 500000]
                           (CreatePost categorizedContent) w3)
                | (r, w2) \<Rightarrow> (Inl (Error ''Error'' ''Fee recipient account does not exist.''), w2))))"

text \<open>Lines 2272-2365.\<close>

definition createPost :: "('x, 'v) env \<Rightarrow> component \<Rightarrow> ('x, 'v) world \<Rightarrow> ('x, 'v) world" where
  "createPost env c w =
     (case (publicKey c, forumPda c) of
        (Some pk, Some pda) \<Rightarrow>
          if newPostContent c = [] then
            refuse env c ''Please connect wallet, enter post content, and wait for Forum PDA to be derived.'' w
          else if newPostCategory c = ''Announcements'' \<and> pk \<notin> set MODERATOR_PUBLIC_KEYS \<and>
                  pk \<noteq> ADMIN_PUBLIC_KEY then
            refuse env c ''Only admins and moderators can post in Announcements.'' w
          else
            (let categorizedContent = ''['' @ newPostCategory c @ ''] '' @ newPostContent c in
             if length categorizedContent > 280 then
               refuse env c ''Post content exceeds 280 characters. Please shorten it.'' w
             else if blank categorizedContent then
               refuse env c ''Post content cannot be empty.'' w
             else snd (executeTransactionSilently env (forumPda c)
                         (createPost_tx env c pk categorizedContent) w))
      | _ \<Rightarrow> refuse env c ''Please connect wallet, enter post content, and wait for Forum PDA to be derived.'' w)"

text \<open>Lines 2367-2457. \<open>REPLY_FEE * LAMPORTS_PER_SOL\<close> is 5000000.\<close>

definition createReply_tx ::
  "('x, 'v) env \<Rightarrow> component \<Rightarrow> string \<Rightarrow> string \<Rightarrow> ('x, 'v) world \<Rightarrow> (error + unit) \<times> ('x, 'v) world" where
  "createReply_tx env c pk content w =
     (case withRetry (random100 env) (Fetch Forum) (fetchAccounts env Forum) 5 1000 w of
        (Throw err, w1) \<Rightarrow> (Inl err, w1)
      | (ReturnUndefined, w1) \<Rightarrow> (Inl undefined_error, w1)
      | (Return forumData, w1) \<Rightarrow>
          then_set [''newReplyContent'', ''showReplyForm'']
            (if useSolcial c then
               (if solcialBalance c < 5000
                then (Inl (Error ''Error'' ''Insufficient SOLCIAL tokens.''), w1)
                else submit env [SetComputeUnitLimit 600000] (CreateReplyWithSolcial content) w1)
             else
               (case withRetry (random100 env) GetBalance (getBalance env pk) 5 1000 w1 of
                  (Throw err, w2) \<Rightarrow> (Inl err, w2)
                | (Return walletBalance, w2) \<Rightarrow>
                    if walletBalance < 5000000 then (Inl (Error ''Error'' ''Insufficient SOL.''), w2)
                    else submit env [SetComputeUnitLimit 600000] (CreateReply content) w2
                | (ReturnUndefined, w2) \<Rightarrow>
                    submit env [SetComputeUnitLimit 600000] (CreateReply content) w2)))"

definition createReply :: "('x, 'v) env \<Rightarrow> component \<Rightarrow> string \<Rightarrow> ('x, 'v) world \<Rightarrow> ('x, 'v) world" where
  "createReply env c postId w =
     (case (publicKey c, newReplyContent c postId, forumPda c) of
        (Some pk, Some content, Some pda) \<Rightarrow>
          if content = [] then
            refuse env c ''Please connect wallet, enter reply content, and wait for Forum PDA to be derived.'' w
          else if find (\<lambda>p. post_id p = postId) (posts c) = None then
            refuse env c ''Post not found. Please ensure the post exists.'' w
          else if length content > 280 then
            refuse env c ''Reply content exceeds 280 characters. Please shorten it.'' w
          else if blank content then
            refuse env c ''Reply content cannot be empty.'' w
          else snd (executeTransactionSilently env (forumPda c) (createReply_tx env c pk content) w)
      | _ \<Rightarrow> refuse env c ''Please connect wallet, enter reply content, and wait for Forum PDA to be derived.'' w)"

text \<open>Lines 2620-2794: \<open>reportPost\<close> and \<open>reportReply\<close> differ in the list searched and in
  the instruction. \<open>REPORT_FEE * LAMPORTS_PER_SOL\<close> is 2000000.\<close>

definition report_tx ::
  "('x, 'v) env \<Rightarrow> component \<Rightarrow> string \<Rightarrow> instruction \<Rightarrow> instruction \<Rightarrow> ('x, 'v) world \<Rightarrow>
     (error + unit) \<times> ('x, 'v) world" where
  "report_tx env c pk withSolcial withSol w =
     (case withRetry (random100 env) (Fetch Forum) (fetchAccounts env Forum) 5 1000 w of
        (Throw err, w1) \<Rightarrow> (Inl err, w1)
      | (ReturnUndefined, w1) \<Rightarrow> (Inl undefined_error, w1)
      | (Return forumData, w1) \<Rightarrow>
          then_set [''showReportModal'', ''reportReason'']
            (if useSolcial c then
               (if solcialBalance c < 200
                then (Inl (Error ''Error'' ''Insufficient SOLCIAL tokens.''), w1)
                else submit env [SetComputeUnitLimit 600000] withSolcial w1)
             else
               (case withRetry (random100 env) GetBalance (getBalance env pk) 5 1000 w1 of
                  (Throw err, w2) \<Rightarrow> (Inl err, w2)
                | (Return walletBalance, w2) \<Rightarrow>
                    if walletBalance < 2000000 then (Inl (Error ''Error'' ''Insufficient SOL.''), w2)
                    else submit env [SetComputeUnitLimit 600000] withSol w2
                | (ReturnUndefined, w2) \<Rightarrow> submit env [SetComputeUnitLimit 600000] withSol w2)))"

definition reportPost :: "('x, 'v) env \<Rightarrow> component \<Rightarrow> string \<Rightarrow> ('x, 'v) world \<Rightarrow> ('x, 'v) world" where
  "reportPost env c postId w =
     (case (publicKey c, forumPda c) of
        (Some pk, Some pda) \<Rightarrow>
          if reportReason c = [] then
            refuse env c ''Please connect wallet, wait for Forum PDA to be derived, and provide a report reason.'' w
          else if find (\<lambda>p. post_id p = postId) (posts c) = None then
            refuse env c ''Post not found. Please ensure the post exists.'' w
          else if length (reportReason c) > 100 then
            refuse env c ''Report reason exceeds 100 characters. Please shorten it.'' w
          else if blank (reportReason c) then
            refuse env c ''Report reason cannot be empty.'' w
          else snd (executeTransactionSilently env (forumPda c)
                      (report_tx env c pk (ReportPostWithSolcial (reportReason c))
                         (ReportPost (reportReason c))) w)
      | _ \<Rightarrow> refuse env c ''Please connect wallet, wait for Forum PDA to be derived, and provide a report reason.'' w)"

definition reportReply :: "('x, 'v) env \<Rightarrow> component \<Rightarrow> string \<Rightarrow> ('x, 'v) world \<Rightarrow> ('x, 'v) world" where
  "reportReply env c replyId w =
     (case (publicKey c, forumPda c) of
        (Some pk, Some pda) \<Rightarrow>
          if reportReason c = [] then
            refuse env c ''Please connect wallet, wait for Forum PDA to be derived, and provide a report reason.'' w
          else if find (\<lambda>r. r = replyId) (replies c) = None then
            refuse env c ''Reply not found. Please ensure the reply exists.'' w
          else if length (reportReason c) > 100 then
            refuse env c ''Report reason exceeds 100 characters. Please shorten it.'' w
          else if blank (reportReason c) then
            refuse env c ''Report reason cannot be empty.'' w
          else snd (executeTransactionSilently env (forumPda c)
                      (report_tx env c pk (ReportReplyWithSolcial (reportReason c))
                         (ReportReply (reportReason c))) w)
      | _ \<Rightarrow> refuse env c ''Please connect wallet, wait for Forum PDA to be derived, and provide a report reason.'' w)"


definition deletePost :: "('x, 'v) env \<Rightarrow> component \<Rightarrow> ('x, 'v) world \<Rightarrow> ('x, 'v) world" where
  "deletePost env c w =
     (case (publicKey c, forumPda c) of
        (Some pk, Some pda) \<Rightarrow>
          if pk \<notin> set MODERATOR_PUBLIC_KEYS \<and> pk \<noteq> ADMIN_PUBLIC_KEY then
            refuse env c ''Only admins and moderators can delete posts.'' w
          else snd (executeTransactionSilently env (forumPda c)
                      (submit env [SetComputeUnitLimit 600000] DeletePost) w)
      | _ \<Rightarrow> refuse env c ''Please connect wallet and wait for Forum PDA to be derived.'' w)"



text \<open>Lines 2940-2975: after the send, \<open>closeForum\<close> clears what the component shows.\<close>

definition closeForum_tx :: "('x, 'v) env \<Rightarrow> ('x, 'v) world \<Rightarrow> (error + unit) \<times> ('x, 'v) world" where
  "closeForum_tx env w =
     (case submit env [SetComputeUnitLimit 600000] CloseForum w of
        (Inl err, w1) \<Rightarrow> (Inl err, w1)
      | (Inr u, w1) \<Rightarrow>
          (Inr (), w1\<lparr>trace := trace w1 @
             map (\<lambda>k. SetAccounts k None) [Forum, Post, Reply, PostReport, ReplyReport]\<rparr>))"

definition closeForum :: "('x, 'v) env \<Rightarrow> component \<Rightarrow> ('x, 'v) world \<Rightarrow> ('x, 'v) world" where
  "closeForum env c w =
     (case (publicKey c, forumPda c) of
        (Some pk, Some pda) \<Rightarrow>
          if pk \<noteq> ADMIN_PUBLIC_KEY then
            refuse env c (''Only admin ('' @ take 8 ADMIN_PUBLIC_KEY @ ''...) can close the forum.'') w
          else snd (executeTransactionSilently env (forumPda c) (closeForum_tx env) w)
      | _ \<Rightarrow> refuse env c ''Please connect wallet and wait for Forum PDA to be derived.'' w)"

section \<open>The bridge-and-post flow\<close>

definition http ::
  "string \<Rightarrow> ('x \<Rightarrow> (error + 'a) \<times> 'x) \<Rightarrow> ('x, 'v) world \<Rightarrow> (error + 'a) \<times> ('x, 'v) world" where
  "http url fn w = (case fn (ext w) of (res, x) \<Rightarrow> (res, \<lparr>ext = x, trace = trace w @ [Http url]\<rparr>))"

definition evm ::
  "string \<Rightarrow> ('x \<Rightarrow> (error + 'a) \<times> 'x) \<Rightarrow> ('x, 'v) world \<Rightarrow> (error + 'a) \<times> ('x, 'v) world" where
  "evm what fn w = (case fn (ext w) of (res, x) \<Rightarrow> (res, \<lparr>ext = x, trace = trace w @ [Evm what]\<rparr>))"

text \<open>Lines 3299-3323: the order id is polled at most \<open>maxPolls\<close> times, 5 seconds apart; a
  failed request counts as a poll. \<open>JNull\<close> is the \<open>return null\<close> at the end.\<close>

function pollForOrderId_from ::
  "('x, 'v) env \<Rightarrow> string \<Rightarrow> nat \<Rightarrow> nat \<Rightarrow> ('x, 'v) world \<Rightarrow> jsval \<times> ('x, 'v) world" where
  "pollForOrderId_from env txHash maxPolls pollCount w =
     (if pollCount < maxPolls then
        (case http ''order-id'' (bridgeOrderId env txHash) w of
           (Inr orderId, w1) \<Rightarrow>
             if truthy orderId then (orderId, w1)
             else pollForOrderId_from env txHash maxPolls (pollCount + 1) (emit (Sleep 5000 0) w1)
         | (Inl err, w1) \<Rightarrow>
             pollForOrderId_from env txHash maxPolls (pollCount + 1) (emit (Sleep 5000 0) w1))
      else (JNull, w))"
  by pat_completeness auto
termination
  by (relation "measure (\<lambda>(env, txHash, maxPolls, pollCount, w). maxPolls - pollCount)") auto

definition pollForOrderId ::
  "('x, 'v) env \<Rightarrow> string \<Rightarrow> nat \<Rightarrow> ('x, 'v) world \<Rightarrow> jsval \<times> ('x, 'v) world" where
  "pollForOrderId env txHash maxPolls w = pollForOrderId_from env txHash maxPolls 0 w"

text \<open>
  Lines 3326-3351: the status is polled while it is not 'Fulfilled', at most \<open>maxPolls\<close>
  times, 10 seconds apart. 'Fulfilled', 'Failed' and 'Expired' are returned at once; after
  a failed request \<open>status\<close> keeps its last value.
\<close>

function pollForFulfillment_from ::
  "('x, 'v) env \<Rightarrow> jsval \<Rightarrow> nat \<Rightarrow> jsval \<Rightarrow> nat \<Rightarrow> ('x, 'v) world \<Rightarrow> jsval \<times> ('x, 'v) world" where
  "pollForFulfillment_from env orderId maxPolls st pollCount w =
     (if st \<noteq> JStr ''Fulfilled'' \<and> pollCount < maxPolls then
        (case http ''status'' (bridgeOrderStatus env orderId) w of
           (Inr st', w1) \<Rightarrow>
             (let w2 = emit (Log (BridgeStatus (pollCount + 1) st')) w1 in
              if st' = JStr ''Fulfilled'' then (st', w2)
              else if st' = JStr ''Failed'' \<or> st' = JStr ''Expired'' then (st', w2)
              else pollForFulfillment_from env orderId maxPolls st' (pollCount + 1)
                     (emit (Sleep 10000 0) w2))
         | (Inl err, w1) \<Rightarrow>
             pollForFulfillment_from env orderId maxPolls st (pollCount + 1) (emit (Sleep 10000 0) w1))
      else (st, w))"
  by pat_completeness auto
termination
  by (relation "measure (\<lambda>(env, orderId, maxPolls, st, pollCount, w). maxPolls - pollCount)") auto

definition pollForFulfillment ::
  "('x, 'v) env \<Rightarrow> jsval \<Rightarrow> nat \<Rightarrow> ('x, 'v) world \<Rightarrow> jsval \<times> ('x, 'v) world" where
  "pollForFulfillment env orderId maxPolls w =
     pollForFulfillment_from env orderId maxPolls (JStr ''Created'') 0 w"

text \<open>Lines 3354-3367: after 5 seconds the balance is read on a fresh connection (one
  request, not through \<open>withRetry\<close>) and compared with the fee in lamports.\<close>

definition verifySolBalance ::
  "('x, 'v) env \<Rightarrow> string \<Rightarrow> nat \<Rightarrow> ('x, 'v) world \<Rightarrow> (error + bool) \<times> ('x, 'v) world" where
  "verifySolBalance env pk requiredLamports w =
     (case request GetBalance (getBalance env pk) (emit (Sleep 5000 0) w) of
        (Inl err, w1) \<Rightarrow> (Inl err, w1)
      | (Inr solBalance, w1) \<Rightarrow>
          (Inr (solBalance \<ge> requiredLamports), emit (Log (SolBalance solBalance)) w1))"

text \<open>Lines 3369-3385. The hint appended to the message is not kept.\<close>

definition validateSolanaNetwork ::
  "('x, 'v) env \<Rightarrow> ('x, 'v) world \<Rightarrow> (error + unit) \<times> ('x, 'v) world" where
  "validateSolanaNetwork env w =
     (case request GetVersion (getVersion env) w of
        (Inr True, w1) \<Rightarrow> (Inr (), w1)
      | (Inr False, w1) \<Rightarrow>
          (Inl (Error ''Error'' (''Network validation failed: '' @ ''Could not verify Solana cluster'')), w1)
      | (Inl err, w1) \<Rightarrow> (Inl (Error ''Error'' (''Network validation failed: '' @ message err)), w1))"

text \<open>Lines 3388-3423.\<close>

definition createAndSendPost ::
  "('x, 'v) env \<Rightarrow> string \<Rightarrow> ('x, 'v) world \<Rightarrow> jsval completion \<times> ('x, 'v) world" where
  "createAndSendPost env content w =
     (case withRetry (random100 env) (Fetch Forum) (fetchAccounts env Forum) 5 1000 w of
        (Throw err, w1) \<Rightarrow> (Throw err, w1)
      | (ReturnUndefined, w1) \<Rightarrow> (Throw undefined_error, w1)
      | (Return forumData, w1) \<Rightarrow>
          (case withRetry (random100 env) GetAccountInfo (getAccountInfo env POST_FEE_RECIPIENT) 5 1000 w1 of
             (Throw err, w2) \<Rightarrow> (Throw err, w2)
           | (Return True, w2) \<Rightarrow>
               sendAndConfirmWithRetry env
                 \<lparr>instructions = [SetComputeUnitLimit 1000000, SetComputeUnitPrice 500000, CreatePost content],
                    recentBlockhash = None, feePayer = None, signatures = []\<rparr>
                 5 1000 (emit (Build (CreatePost content)) w2)
           | (r, w2) \<Rightarrow> (Throw (Error ''Error'' ''Fee recipient account does not exist''), w2)))"

text \<open>Lines 3426-3461: unlike the refresh of \<open>executeTransactionSilently\<close>, the third failure
  is rethrown.\<close>

function refreshForumData_from ::
  "('x, 'v) env \<Rightarrow> nat \<Rightarrow> ('x, 'v) world \<Rightarrow> (error + unit) \<times> ('x, 'v) world" where
  "refreshForumData_from env attempt w =
     (if attempt \<le> 3 then
        (case refresh_steps env [Forum, Post] w of
           (Inr u, w1) \<Rightarrow> (Inr (), w1)
         | (Inl refreshErr, w1) \<Rightarrow>
             if attempt = 3 then (Inl refreshErr, w1)
             else refreshForumData_from env (attempt + 1) (emit (Sleep 1000 0) w1))
      else (Inr (), w))"
  by pat_completeness auto
termination
  by (relation "measure (\<lambda>(env, attempt, w). 4 - attempt)") auto

text \<open>\<open>toLowerCase\<close> on the letters A-Z; other code units are left as they are.\<close>

definition to_lower_char :: "char \<Rightarrow> char" where
  "to_lower_char c =
     (case map_of (zip ''ABCDEFGHIJKLMNOPQRSTUVWXYZ'' ''abcdefghijklmnopqrstuvwxyz'') c of
        Some l \<Rightarrow> l
      | None \<Rightarrow> c)"

text \<open>Line 3256: \<open>throw new Error(`Bridge ${status.toLowerCase()}`)\<close>; on a status that is not
  a string the call of \<open>toLowerCase\<close> throws instead.\<close>

definition bridge_status_error :: "jsval \<Rightarrow> error" where
  "bridge_status_error st =
     (case st of
        JStr s \<Rightarrow> Error ''Error'' (''Bridge '' @ map to_lower_char s)
      | _ \<Rightarrow> Error ''TypeError'' ''status.toLowerCase is not a function'')"

text \<open>
  Lines 3184-3288, the \<open>try\<close> block. \<open>bridgeCreateTx\<close> stands for building the request and
  fetching it; the fee to cover is \<open>POST_FEE\<close>, 1000000 lamports.
\<close>

definition bridge_and_post ::
  "('x, 'v) env \<Rightarrow> component \<Rightarrow> string \<Rightarrow> ('x, 'v) world \<Rightarrow> (error + unit) \<times> ('x, 'v) world" where
  "bridge_and_post env c pk w =
     (case http ''create-tx'' (bridgeCreateTx env) w of
        (Inl err, w1) \<Rightarrow> (Inl err, w1)
      | (Inr response, w1) \<Rightarrow>
     if \<not> resp_ok response then
       (Inl (Error ''Error'' (''Bridge tx creation failed: '' @ resp_status response @ '' - '' @
               resp_body response)), w1)
     else
     (case evm ''sendTransaction'' (evmSendTransaction env (resp_body response)) w1 of
        (Inl err, w2) \<Rightarrow> (Inl err, w2)
      | (Inr txHash, w2) \<Rightarrow>
     (case evm ''wait'' (evmWait env txHash) w2 of
        (Inl err, w3) \<Rightarrow> (Inl err, w3)
      | (Inr u, w3) \<Rightarrow>
     (case pollForOrderId env txHash 24 w3 of
        (orderId, w4) \<Rightarrow>
     if \<not> truthy orderId then (Inl (Error ''Error'' ''Order ID timeout after 2 minutes''), w4)
     else
     (case pollForFulfillment env orderId 60 w4 of
        (st, w5) \<Rightarrow>
     if st \<noteq> JStr ''Fulfilled'' then (Inl (bridge_status_error st), w5)
     else
     (case validateSolanaNetwork env w5 of
        (Inl err, w6) \<Rightarrow> (Inl err, w6)
      | (Inr u, w6) \<Rightarrow>
     (case verifySolBalance env pk 1000000 w6 of
        (Inl err, w7) \<Rightarrow> (Inl err, w7)
      | (Inr False, w7) \<Rightarrow> (Inl (Error ''Error'' ''Insufficient SOL for posting''), w7)
      | (Inr True, w7) \<Rightarrow>
     (case createAndSendPost env (''['' @ bridgePostCategory c @ ''] '' @ bridgePostContent c)
             (emit (Log BridgeComplete) w7) of
        (Throw err, w8) \<Rightarrow> (Inl err, w8)
      | (r, w8) \<Rightarrow>
     (case refreshForumData_from env 1 w8 of
        (Inl err, w9) \<Rightarrow> (Inl err, w9)
      | (Inr u, w9) \<Rightarrow>
          (Inr (), w9\<lparr>trace := trace w9 @
             map SetForm [''showBridge'', ''bridgePostContent'', ''bridgePostCategory'', ''selectedInput''] @
             [SetError None]\<rparr>))))))))))"

fun join :: "string list \<Rightarrow> string" where
  "join [] = []"
| "join [s] = s"
| "join (s # ss) = s @ '', '' @ join ss"

text \<open>Lines 3153-3296. What the \<open>try\<close> block throws is shown as the error; \<open>finally\<close> ends
  the loading state.\<close>

definition handleBridgeAndPost :: "('x, 'v) env \<Rightarrow> component \<Rightarrow> ('x, 'v) world \<Rightarrow> ('x, 'v) world" where
  "handleBridgeAndPost env c w =
     (case publicKey c of
        Some pk \<Rightarrow>
          if \<not> evmProvider c \<or> evmAddress c = [] \<or> \<not> estimationInfo c \<or> blank (bridgePostContent c) then
            emit (SetError (Some (''Missing: '' @ join
              ((if \<not> evmProvider c then [''MetaMask Provider''] else []) @
               (if evmAddress c = [] then [''MetaMask Address''] else []) @
               (if \<not> estimationInfo c then [''Bridge Estimation''] else []) @
               (if blank (bridgePostContent c) then [''Post Content''] else []))))) w
          else
            (case bridge_and_post env c pk (emit (SetError None) (emit (SetLoading True) w)) of
               (Inl err, w1) \<Rightarrow>
                 emit (SetLoading False) (emit (SetError (Some (''Failed: '' @ message err))) w1)
             | (Inr u, w1) \<Rightarrow> emit (SetLoading False) w1)
      | None \<Rightarrow>
          emit (SetError (Some (''Missing: '' @ join
            ((if \<not> evmProvider c then [''MetaMask Provider''] else []) @
             (if evmAddress c = [] then [''MetaMask Address''] else []) @
             [''Solana Wallet''] @
             (if \<not> estimationInfo c then [''Bridge Estimation''] else []) @
             (if blank (bridgePostContent c) then [''Post Content''] else []))))) w)"

section \<open>Properties of withRetry\<close>

text \<open>
  The requests of the attempts that were retried: each failed with \<open>err\<close>, and was followed by
  a wait of \<open>baseDelay * 2 ^ (attempt - 1)\<close> milliseconds plus the jitter \<open>j\<close>.
\<close>

fun retries :: "rpc_method \<Rightarrow> nat \<Rightarrow> nat \<Rightarrow> (error \<times> nat) list \<Rightarrow> 'v event list" where
  "retries m baseDelay attempt [] = []"
| "retries m baseDelay attempt ((err, j) # rs) =
     Call m (Some err) # Sleep (baseDelay * 2 ^ (attempt - 1)) j # retries m baseDelay (attempt + 1) rs"

definition max_retries_error :: error where
  "max_retries_error = Error ''Error'' ''Max retries reached due to rate limiting''"

fun is_call :: "'v event \<Rightarrow> bool" where
  "is_call (Call m e) = True"
| "is_call _ = False"

definition invocations :: "'v event list \<Rightarrow> nat" where
  "invocations evs = length (filter is_call evs)"

text \<open>What a run of the loop from \<open>attempt\<close> on adds to the trace, and how it ends.\<close>

definition retry_run :: "rpc_method \<Rightarrow> nat \<Rightarrow> nat \<Rightarrow> nat \<Rightarrow> 'a completion \<Rightarrow> 'v event list \<Rightarrow> bool" where
  "retry_run m maxRetries baseDelay attempt r evs \<longleftrightarrow>
     (\<exists>rs final. evs = retries m baseDelay attempt rs @ final \<and>
        (\<forall>(err, j) \<in> set rs. rate_limited err) \<and>
        (if maxRetries < attempt then rs = [] \<and> final = [] \<and> r = ReturnUndefined
         else attempt + length rs \<le> maxRetries \<and>
           ((final = [Call m None] \<and> (\<exists>v. r = Return v)) \<or>
            (\<exists>err. final = [Call m (Some err)] \<and> \<not> rate_limited err \<and> r = Throw err) \<or>
            (\<exists>err. final = [Call m (Some err)] \<and> rate_limited err \<and>
               attempt + length rs = maxRetries \<and> r = Throw max_retries_error))))"

lemma request_cases:
  "request m fn w = (res, w1) \<Longrightarrow>
     (\<exists>v. res = Inr v \<and> trace w1 = trace w @ [Call m None]) \<or>
     (\<exists>err. res = Inl err \<and> trace w1 = trace w @ [Call m (Some err)])"
  by (auto simp: request_def split: prod.splits sum.splits)

lemma retry_run_step:
  assumes "retry_run m maxRetries baseDelay (Suc attempt) r evs" "rate_limited err" "attempt < maxRetries"
  shows "retry_run m maxRetries baseDelay attempt r
           (Call m (Some err) # Sleep (baseDelay * 2 ^ (attempt - 1)) j # evs)"
proof -
  from assms(1) obtain rs final where
    *: "evs = retries m baseDelay (Suc attempt) rs @ final" "\<forall>(err, j) \<in> set rs. rate_limited err"
    and **: "(if maxRetries < Suc attempt then rs = [] \<and> final = [] \<and> r = ReturnUndefined
         else Suc attempt + length rs \<le> maxRetries \<and>
           ((final = [Call m None] \<and> (\<exists>v. r = Return v)) \<or>
            (\<exists>err. final = [Call m (Some err)] \<and> \<not> rate_limited err \<and> r = Throw err) \<or>
            (\<exists>err. final = [Call m (Some err)] \<and> rate_limited err \<and>
               Suc attempt + length rs = maxRetries \<and> r = Throw max_retries_error)))"
    unfolding retry_run_def by blast
  show ?thesis unfolding retry_run_def
    apply (rule exI[of _ "(err, j) # rs"], rule exI[of _ final])
    using * ** assms(2,3) by (auto split: if_splits)
qed

lemma retry_run_ok:
  "attempt \<le> maxRetries \<Longrightarrow> retry_run m maxRetries baseDelay attempt (Return v) [Call m None]"
  unfolding retry_run_def by (rule exI[of _ "[]"], rule exI[of _ "[Call m None]"]) auto

lemma retry_run_rethrow:
  "attempt \<le> maxRetries \<Longrightarrow> \<not> rate_limited err \<Longrightarrow>
     retry_run m maxRetries baseDelay attempt (Throw err) [Call m (Some err)]"
  unfolding retry_run_def by (rule exI[of _ "[]"], rule exI[of _ "[Call m (Some err)]"]) auto

lemma retry_run_max:
  "attempt = maxRetries \<Longrightarrow> rate_limited err \<Longrightarrow>
     retry_run m maxRetries baseDelay attempt (Throw max_retries_error) [Call m (Some err)]"
  unfolding retry_run_def by (rule exI[of _ "[]"], rule exI[of _ "[Call m (Some err)]"]) auto

lemma retry_run_none:
  "maxRetries < attempt \<Longrightarrow> retry_run m maxRetries baseDelay attempt ReturnUndefined []"
  unfolding retry_run_def by (rule exI[of _ "[]"], rule exI[of _ "[]"]) auto

lemma withRetry_from_run:
  "withRetry_from rnd m fn maxRetries baseDelay attempt w = (r, w') \<Longrightarrow>
     \<exists>evs. trace w' = trace w @ evs \<and> retry_run m maxRetries baseDelay attempt r evs"
proof (induction rnd m fn maxRetries baseDelay attempt w arbitrary: r w' rule: withRetry_from.induct)
  case (1 rnd m fn maxRetries baseDelay attempt w)
  show ?case
  proof (cases "attempt \<le> maxRetries")
    case False
    with "1.prems" have "r = ReturnUndefined" "w' = w" by auto
    with False show ?thesis by (auto intro: retry_run_none)
  next
    case True
    obtain res w1 where rq: "request m fn w = (res, w1)" by (cases "request m fn w")
    show ?thesis
    proof (cases res)
      case (Inr v)
      with rq True "1.prems" have "r = Return v" "w' = w1" by auto
      moreover from rq Inr have "trace w1 = trace w @ [Call m None]" by (auto dest: request_cases)
      ultimately show ?thesis using True
        by (auto intro: retry_run_ok)
    next
      case (Inl err)
      from rq Inl have tr: "trace w1 = trace w @ [Call m (Some err)]" by (auto dest: request_cases)
      show ?thesis
      proof (cases "rate_limited err")
        case False
        with rq Inl True "1.prems" have "r = Throw err" "w' = w1" by auto
        with tr False True show ?thesis
          by (auto intro: retry_run_rethrow)
      next
        case rl: True
        show ?thesis
        proof (cases "attempt = maxRetries")
          case True
          with rq Inl rl "1.prems" have "r = Throw max_retries_error" "w' = w1"
            by (auto simp: max_retries_error_def)
          with tr rl True show ?thesis
            by (auto intro: retry_run_max)
        next
          case False
          obtain j x where rn: "rnd (ext w1) = (j, x)" by (cases "rnd (ext w1)")
          let ?w2 = "\<lparr>ext = x, trace = trace w1 @ [Sleep (baseDelay * 2 ^ (attempt - 1)) j]\<rparr>"
          from "1.prems" True rq Inl rl False rn
          have run: "withRetry_from rnd m fn maxRetries baseDelay (attempt + 1) ?w2 = (r, w')" by simp
          from "1.IH"[OF True rq[symmetric] Inl rl False rn[symmetric] run]
          obtain evs where e: "trace w' = trace ?w2 @ evs"
            "retry_run m maxRetries baseDelay (attempt + 1) r evs"
            by auto
          from e(2) rl True False have "retry_run m maxRetries baseDelay attempt r
             (Call m (Some err) # Sleep (baseDelay * 2 ^ (attempt - 1)) j # evs)"
            by (intro retry_run_step) auto
          with e(1) tr show ?thesis by auto
        qed
      qed
    qed
  qed
qed

lemma invocations_retries [simp]: "invocations (retries m baseDelay attempt rs) = length rs"
  by (induction rs arbitrary: attempt) (auto simp: invocations_def)

lemma invocations_append [simp]: "invocations (xs @ ys) = invocations xs + invocations ys"
  by (simp add: invocations_def)

text \<open>
  C2. A run of \<open>withRetry(fn, maxRetries, baseDelay)\<close> adds to the trace the invocations of
  \<open>fn\<close> that were retried, every one of them failed with an error whose message contains
  '429' or 'Too Many Requests' and followed by a wait of \<open>baseDelay * 2 ^ (attempt - 1)\<close> plus
  jitter, and then one last invocation, after which it ends: with the value of \<open>fn\<close>; or
  rethrowing at once the error of \<open>fn\<close> when that is not a rate-limit error; or, when the
  last invocation is the \<open>maxRetries\<close>-th and is rate limited too, throwing 'Max retries
  reached due to rate limiting'. So \<open>fn\<close> is invoked at most \<open>maxRetries\<close> times. (With
  \<open>maxRetries = 0\<close> the loop body never runs: no invocation, and \<open>undefined\<close> is returned.)
\<close>

theorem withRetry_retries_only_rate_limited:
  assumes "withRetry rnd m fn maxRetries baseDelay w = (r, w')"
  shows "\<exists>rs final.
           trace w' = trace w @ retries m baseDelay 1 rs @ final \<and>
           (\<forall>(err, j) \<in> set rs. rate_limited err) \<and>
           invocations (retries m baseDelay 1 rs @ final) \<le> maxRetries \<and>
           ((final = [Call m None] \<and> (\<exists>v. r = Return v)) \<or>
            (\<exists>err. final = [Call m (Some err)] \<and> \<not> rate_limited err \<and> r = Throw err) \<or>
            (\<exists>err. final = [Call m (Some err)] \<and> rate_limited err \<and>
               length rs + 1 = maxRetries \<and> r = Throw max_retries_error) \<or>
            (final = [] \<and> rs = [] \<and> maxRetries = 0 \<and> r = ReturnUndefined))"
proof -
  from withRetry_from_run[OF assms[unfolded withRetry_def]]
  obtain evs where tr: "trace w' = trace w @ evs" and run: "retry_run m maxRetries baseDelay 1 r evs"
    by blast
  from run obtain rs final where
    evs: "evs = retries m baseDelay 1 rs @ final" and rl: "\<forall>(err, j) \<in> set rs. rate_limited err"
    and fin: "if maxRetries < 1 then rs = [] \<and> final = [] \<and> r = ReturnUndefined
         else 1 + length rs \<le> maxRetries \<and>
           ((final = [Call m None] \<and> (\<exists>v. r = Return v)) \<or>
            (\<exists>err. final = [Call m (Some err)] \<and> \<not> rate_limited err \<and> r = Throw err) \<or>
            (\<exists>err. final = [Call m (Some err)] \<and> rate_limited err \<and>
               1 + length rs = maxRetries \<and> r = Throw max_retries_error))"
    unfolding retry_run_def by blast
  have inv: "invocations (retries m baseDelay 1 rs @ final) \<le> maxRetries"
  proof -
    have "invocations final \<le> 1" "maxRetries = 0 \<longrightarrow> final = []" "length rs + invocations final \<le> maxRetries"
      using fin by (auto simp: invocations_def split: if_splits)
    then show ?thesis by simp
  qed
  show ?thesis
    apply (rule exI[of _ rs], rule exI[of _ final])
    using tr evs rl inv fin by (auto split: if_splits)
qed

text \<open>An endpoint that answers 429 twice and then the value, with a jitter of 7 ms.\<close>

definition flaky :: "nat \<Rightarrow> (error + nat) \<times> nat" where
  "flaky x = (if x < 2 then Inl (Error ''Error'' ''429 Too Many Requests'') else Inr x, x + 1)"

definition jitter7 :: "nat \<Rightarrow> nat \<times> nat" where
  "jitter7 x = (7, x)"

definition flaky_start :: "(nat, unit) world" where
  "flaky_start = \<lparr>ext = 0, trace = []\<rparr>"

definition flaky_end :: "(nat, unit) world" where
  "flaky_end = \<lparr>ext = 3, trace =
     [Call GetBalance (Some (Error ''Error'' ''429 Too Many Requests'')), Sleep 1000 7,
      Call GetBalance (Some (Error ''Error'' ''429 Too Many Requests'')), Sleep 2000 7,
      Call GetBalance None]\<rparr>"

theorem withRetry_retries_only_rate_limited_witness:
  "withRetry jitter7 GetBalance flaky 5 1000 flaky_start = (Return 2, flaky_end) \<and>
   (\<exists>rs final.
      trace flaky_end = trace flaky_start @ retries GetBalance 1000 1 rs @ final \<and>
      invocations (retries GetBalance 1000 1 rs @ final :: unit event list) \<le> 5)"
proof -
  have run: "withRetry jitter7 GetBalance flaky 5 1000 flaky_start = (Return 2, flaky_end)"
    by (simp add: withRetry_def withRetry_from.simps request_def flaky_def jitter7_def
        rate_limited_def flaky_start_def flaky_end_def)
  from withRetry_retries_only_rate_limited[OF run] show ?thesis using run by blast
qed

declare withRetry_from.simps [simp del] sacr_from.simps [simp del]

lemmas eval_simps = withRetry_def withRetry_from.simps request_def rate_limited_def emit_def
  sacr_try_def sacr_catch_def sacr_attempt_def simulate_phase_def sim_catch_def send_def
  confirm_step_def confirm_phase_def confirm_catch_def first_signature_def fetch_logs_def
  sendAndConfirmWithRetry_def sacr_from.simps Let_def

lemmas bridge_simps = handleBridgeAndPost_def bridge_and_post_def http_def evm_def
  pollForOrderId_def pollForOrderId_from.simps pollForFulfillment_def pollForFulfillment_from.simps
  validateSolanaNetwork_def verifySolBalance_def createAndSendPost_def refreshForumData_from.simps
  bridge_status_error_def to_lower_char_def blank_def is_space_def refresh_step_def

section \<open>Fixtures\<close>

text \<open>
  A node, wallet and bridge where every request succeeds at once; the examples below change
  one operation of it. The outside state is a number that no operation changes.
\<close>

definition node_ok :: "(nat, unit) env" where
  "node_ok =
     \<lparr>random100 = (\<lambda>x. (0, x)),
      walletPublicKey = Some ''wallet'',
      getLatestBlockhash = (\<lambda>x. (Inr ''blockhash'', x)),
      serialize = (\<lambda>tx. Inr ''raw''),
      simulateTransaction = (\<lambda>tx x. (Inr \<lparr>sim_err = None, sim_logs = ''[]''\<rparr>, x)),
      sendAndConfirm = (\<lambda>tx x. (Inr (JStr ''sig''), tx\<lparr>signatures := [SigString ''sig'']\<rparr>, x)),
      getTransaction = (\<lambda>s x. (Inr (Some (TxStatus None)), x)),
      getLogs = (\<lambda>err x. (Inr ''[]'', x)),
      bs58encode = (\<lambda>b. if b = [] then [] else ''5ig''),
      fetchAccounts = (\<lambda>k x. (Inr (), x)),
      decodeAccounts = (\<lambda>k v. Inr v),
      getAccountInfo = (\<lambda>a x. (Inr True, x)),
      getBalance = (\<lambda>a x. (Inr 5000000000, x)),
      getVersion = (\<lambda>x. (Inr True, x)),
      bridgeCreateTx = (\<lambda>x. (Inr \<lparr>resp_ok = True, resp_status = ''200'', resp_body = ''{}''\<rparr>, x)),
      evmSendTransaction = (\<lambda>b x. (Inr ''0xhash'', x)),
      evmWait = (\<lambda>h x. (Inr (), x)),
      bridgeOrderId = (\<lambda>h x. (Inr (JStr ''order''), x)),
      bridgeOrderStatus = (\<lambda>i x. (Inr (JStr ''Fulfilled''), x))\<rparr>"

definition tx0 :: transaction where
  "tx0 = \<lparr>instructions = [SetComputeUnitLimit 600000, DeletePost], recentBlockhash = None,
          feePayer = None, signatures = []\<rparr>"

text \<open>The transaction after an attempt has set the blockhash and the fee payer, and after the
  wallet of \<open>node_ok\<close> has signed it.\<close>

definition tx0_prepared :: transaction where
  "tx0_prepared = tx0\<lparr>recentBlockhash := Some ''blockhash'', feePayer := Some ''wallet''\<rparr>"

definition tx0_sent :: transaction where
  "tx0_sent = tx0\<lparr>recentBlockhash := Some ''blockhash'', feePayer := Some ''wallet'',
     signatures := [SigString ''sig'']\<rparr>"

definition w0 :: "(nat, unit) world" where
  "w0 = \<lparr>ext = 0, trace = []\<rparr>"

section \<open>Properties of sendAndConfirmWithRetry: how an attempt ends\<close>

lemma sacr_from_returned:
  "attempt \<le> maxRetries \<Longrightarrow>
   sacr_attempt env tx fs attempt maxRetries baseDelay w = (Returned v, tx1, fs1, w1) \<Longrightarrow>
   sacr_from env tx fs maxRetries baseDelay attempt w = (Return v, w1)"
  by (subst sacr_from.simps) simp

lemma sacr_from_raised:
  "attempt \<le> maxRetries \<Longrightarrow>
   sacr_attempt env tx fs attempt maxRetries baseDelay w = (Raised err, tx1, fs1, w1) \<Longrightarrow>
   sacr_from env tx fs maxRetries baseDelay attempt w = (Throw err, w1)"
  by (subst sacr_from.simps) simp

lemma sacr_from_continued:
  "attempt \<le> maxRetries \<Longrightarrow>
   sacr_attempt env tx fs attempt maxRetries baseDelay w = (Continued, tx1, fs1, w1) \<Longrightarrow>
   sacr_from env tx fs maxRetries baseDelay attempt w =
     sacr_from env tx1 fs1 maxRetries baseDelay (attempt + 1) w1"
  by (subst sacr_from.simps) simp

lemma sacr_from_past:
  "maxRetries < attempt \<Longrightarrow> sacr_from env tx fs maxRetries baseDelay attempt w = (ReturnUndefined, w)"
  by (subst sacr_from.simps) simp

text \<open>
  C10, as amended. If the \<open>try\<close> block of the last allowed attempt (\<open>attempt = maxRetries\<close>)
  throws an error whose message contains 'Blockhash not found' or
  'TransactionExpiredBlockheightExceededError', and none of the patterns that the handler
  tests before these ('Invalid arguments', 'Invalid params: invalid type: map, expected a
  string', 'WrongSize', 'failed to get transaction', 'This transaction has already been
  processed'), then the handler only logs and continues, the loop ends, and
  \<open>sendAndConfirmWithRetry\<close> returns \<open>undefined\<close>: neither a signature nor an error.
\<close>

theorem blockhash_expiry_on_last_attempt:
  assumes "sacr_try env tx finalSignature maxRetries maxRetries w = (Raised err, tx1, fs1, w1)"
    and "str_includes (message err) ''Blockhash not found'' \<or>
         str_includes (message err) ''TransactionExpiredBlockheightExceededError''"
    and "\<not> str_includes (message err) ''Invalid arguments''"
    and "\<not> str_includes (message err) ''Invalid params: invalid type: map, expected a string''"
    and "\<not> str_includes (message err) ''WrongSize''"
    and "\<not> str_includes (message err) ''failed to get transaction''"
    and "\<not> str_includes (message err) ''This transaction has already been processed''"
  shows "sacr_from env tx finalSignature maxRetries baseDelay maxRetries w =
           (ReturnUndefined, emit (Log (AttemptFailed maxRetries)) w1)"
proof -
  have "sacr_attempt env tx finalSignature maxRetries maxRetries baseDelay w =
          (Continued, tx1, fs1, emit (Log (AttemptFailed maxRetries)) w1)"
    using assms by (simp add: sacr_attempt_def sacr_catch_def Let_def)
  then show ?thesis
    by (simp add: sacr_from_continued sacr_from_past)
qed

text \<open>A node whose every \<open>getLatestBlockhash\<close> fails with 'Blockhash not found': five attempts,
  and \<open>undefined\<close>.\<close>

definition expired_error :: error where
  "expired_error = Error ''SendTransactionError'' ''Blockhash not found''"

definition node_expired :: "(nat, unit) env" where
  "node_expired = node_ok\<lparr>getLatestBlockhash := (\<lambda>x. (Inl expired_error, x))\<rparr>"

definition expired_w4 :: "(nat, unit) world" where
  "expired_w4 = \<lparr>ext = 0, trace =
     [Call GetLatestBlockhash (Some expired_error), Log (AttemptFailed 1),
      Call GetLatestBlockhash (Some expired_error), Log (AttemptFailed 2),
      Call GetLatestBlockhash (Some expired_error), Log (AttemptFailed 3),
      Call GetLatestBlockhash (Some expired_error), Log (AttemptFailed 4)]\<rparr>"

definition expired_w5 :: "(nat, unit) world" where
  "expired_w5 = \<lparr>ext = 0, trace = trace expired_w4 @ [Call GetLatestBlockhash (Some expired_error)]\<rparr>"

theorem blockhash_expiry_on_last_attempt_witness:
  "sacr_try node_expired tx0 JNull 5 5 expired_w4 = (Raised expired_error, tx0, JNull, expired_w5) \<and>
   str_includes (message expired_error) ''Blockhash not found'' \<and>
   sacr_from node_expired tx0 JNull 5 1000 5 expired_w4 =
     (ReturnUndefined, emit (Log (AttemptFailed 5)) expired_w5) \<and>
   sendAndConfirmWithRetry node_expired tx0 5 1000 w0 =
     (ReturnUndefined, emit (Log (AttemptFailed 5)) expired_w5)"
proof -
  have tr: "sacr_try node_expired tx0 JNull 5 5 expired_w4 = (Raised expired_error, tx0, JNull, expired_w5)"
    by (simp add: eval_simps node_expired_def node_ok_def tx0_def expired_w4_def expired_w5_def
        expired_error_def)
  have p: "str_includes (message expired_error) ''Blockhash not found''"
    "\<not> str_includes (message expired_error) ''Invalid arguments''"
    "\<not> str_includes (message expired_error) ''Invalid params: invalid type: map, expected a string''"
    "\<not> str_includes (message expired_error) ''WrongSize''"
    "\<not> str_includes (message expired_error) ''failed to get transaction''"
    "\<not> str_includes (message expired_error) ''This transaction has already been processed''"
    by (simp_all add: expired_error_def)
  have last: "sacr_from node_expired tx0 JNull 5 1000 5 expired_w4 =
     (ReturnUndefined, emit (Log (AttemptFailed 5)) expired_w5)"
    using blockhash_expiry_on_last_attempt[OF tr disjI1[OF p(1)] p(2-6)] .
  have first: "sendAndConfirmWithRetry node_expired tx0 5 1000 w0 =
     sacr_from node_expired tx0 JNull 5 1000 5 expired_w4"
    by (simp add: eval_simps node_expired_def node_ok_def tx0_def expired_w4_def w0_def expired_error_def)
  show ?thesis using tr p(1) last first by simp
qed

text \<open>
  C10 as stated fails where the message also contains a pattern tested earlier. Here every
  \<open>getLatestBlockhash\<close> fails with 'Invalid arguments: Blockhash not found': the error of the
  fifth and last attempt contains 'Blockhash not found', and the function throws.
\<close>

definition expired_args_error :: error where
  "expired_args_error = Error ''SendTransactionError'' ''Invalid arguments: Blockhash not found''"

definition node_expired_args :: "(nat, unit) env" where
  "node_expired_args = node_ok\<lparr>getLatestBlockhash := (\<lambda>x. (Inl expired_args_error, x))\<rparr>"

definition expired_args_w4 :: "(nat, unit) world" where
  "expired_args_w4 = \<lparr>ext = 0, trace =
     [Call GetLatestBlockhash (Some expired_args_error), Log (AttemptFailed 1), GetLogs,
      Call GetLatestBlockhash (Some expired_args_error), Log (AttemptFailed 2), GetLogs,
      Call GetLatestBlockhash (Some expired_args_error), Log (AttemptFailed 3), GetLogs,
      Call GetLatestBlockhash (Some expired_args_error), Log (AttemptFailed 4), GetLogs]\<rparr>"

definition expired_args_w5 :: "(nat, unit) world" where
  "expired_args_w5 = \<lparr>ext = 0, trace = trace expired_args_w4 @
     [Call GetLatestBlockhash (Some expired_args_error)]\<rparr>"

theorem blockhash_expiry_on_last_attempt_counterexample:
  "sacr_try node_expired_args tx0 JNull 5 5 expired_args_w4 =
     (Raised expired_args_error, tx0, JNull, expired_args_w5) \<and>
   str_includes (message expired_args_error) ''Blockhash not found'' \<and>
   sendAndConfirmWithRetry node_expired_args tx0 5 1000 w0 =
     sacr_from node_expired_args tx0 JNull 5 1000 5 expired_args_w4 \<and>
   sacr_from node_expired_args tx0 JNull 5 1000 5 expired_args_w4 =
     (Throw (Error ''Error''
        ''Invalid arguments error: Invalid arguments: Blockhash not found. Logs: []''),
      \<lparr>ext = 0, trace = trace expired_args_w5 @ [Log (AttemptFailed 5), GetLogs]\<rparr>)"
  by (simp add: eval_simps node_expired_args_def node_ok_def tx0_def expired_args_w4_def
      expired_args_w5_def w0_def expired_args_error_def)

text \<open>
  C5, as amended. If the \<open>try\<close> block of an attempt throws an error whose message contains
  'This transaction has already been processed' and none of the patterns that the handler
  tests before it ('Invalid arguments', 'Invalid params: invalid type: map, expected a
  string', 'WrongSize', 'failed to get transaction'), the handler takes the first signature
  of the transaction and fetches its status (through \<open>withRetry\<close>); the function returns that
  signature when the status exists and shows no error, and otherwise (no status, an error
  in it, or the lookup failed) throws 'Transaction already processed but failed or not
  found'. Nothing else decides.
\<close>

theorem already_processed_checks_status:
  assumes "attempt \<le> maxRetries"
    and "sacr_try env tx finalSignature attempt maxRetries w = (Raised err, tx1, fs1, w1)"
    and "str_includes (message err) ''This transaction has already been processed''"
    and "\<not> str_includes (message err) ''Invalid arguments''"
    and "\<not> str_includes (message err) ''Invalid params: invalid type: map, expected a string''"
    and "\<not> str_includes (message err) ''WrongSize''"
    and "\<not> str_includes (message err) ''failed to get transaction''"
    and "withRetry (random100 env) GetTransaction (getTransaction env (first_signature env tx1)) 5 1000
           (emit (Log (AttemptFailed attempt)) w1) = (r, w2)"
  shows "sacr_from env tx finalSignature maxRetries baseDelay attempt w =
           (if r = Return (Some (TxStatus None)) then Return (JStr (first_signature env tx1))
            else Throw already_processed_error, w2)"
proof -
  have "sacr_attempt env tx finalSignature attempt maxRetries baseDelay w =
          (if r = Return (Some (TxStatus None)) then Returned (JStr (first_signature env tx1))
            else Raised already_processed_error, tx1, fs1, w2)"
    using assms(2-)
    by (cases r) (auto simp: sacr_attempt_def sacr_catch_def Let_def tx_status.expand split: option.splits)
  then show ?thesis using assms(1)
    by (auto simp: sacr_from_returned sacr_from_raised)
qed

text \<open>A node that rejects the send as already processed, after the wallet has signed; the
  status of the signed transaction exists and shows no error.\<close>

definition processed_error :: error where
  "processed_error = Error ''SendTransactionError''
     ''failed to send transaction: This transaction has already been processed''"

definition node_processed :: "(nat, unit) env" where
  "node_processed = node_ok\<lparr>sendAndConfirm :=
     (\<lambda>tx x. (Inl processed_error, tx\<lparr>signatures := [SigPair (Some [1, 2, 3])]\<rparr>, x))\<rparr>"

definition tx0_signed :: transaction where
  "tx0_signed = tx0\<lparr>recentBlockhash := Some ''blockhash'', feePayer := Some ''wallet'',
     signatures := [SigPair (Some [1, 2, 3])]\<rparr>"

definition processed_w1 :: "(nat, unit) world" where
  "processed_w1 = \<lparr>ext = 0, trace =
     [Call GetLatestBlockhash None, Call SimulateTransaction None, Log SimulationSucceeded,
      Call SendAndConfirm (Some processed_error)]\<rparr>"

definition processed_w2 :: "(nat, unit) world" where
  "processed_w2 = \<lparr>ext = 0, trace = trace processed_w1 @
     [Log (AttemptFailed 1), Call GetTransaction None]\<rparr>"

theorem already_processed_checks_status_witness:
  "sacr_try node_processed tx0 JNull 1 5 w0 = (Raised processed_error, tx0_signed, JNull, processed_w1) \<and>
   str_includes (message processed_error) ''This transaction has already been processed'' \<and>
   first_signature node_processed tx0_signed = ''5ig'' \<and>
   sendAndConfirmWithRetry node_processed tx0 5 1000 w0 = (Return (JStr ''5ig''), processed_w2)"
proof -
  have tr: "sacr_try node_processed tx0 JNull 1 5 w0 =
      (Raised processed_error, tx0_signed, JNull, processed_w1)"
    by (simp add: eval_simps node_processed_def node_ok_def tx0_def tx0_signed_def w0_def
        processed_w1_def processed_error_def)
  have p: "str_includes (message processed_error) ''This transaction has already been processed''"
    "\<not> str_includes (message processed_error) ''Invalid arguments''"
    "\<not> str_includes (message processed_error) ''Invalid params: invalid type: map, expected a string''"
    "\<not> str_includes (message processed_error) ''WrongSize''"
    "\<not> str_includes (message processed_error) ''failed to get transaction''"
    by (simp_all add: processed_error_def)
  have sg: "first_signature node_processed tx0_signed = ''5ig''"
    by (simp add: first_signature_def node_processed_def node_ok_def tx0_signed_def)
  have st: "withRetry (random100 node_processed) GetTransaction
      (getTransaction node_processed (first_signature node_processed tx0_signed)) 5 1000
      (emit (Log (AttemptFailed 1)) processed_w1) = (Return (Some (TxStatus None)), processed_w2)"
    by (simp add: eval_simps node_processed_def node_ok_def processed_w1_def processed_w2_def)
  have "(1::nat) \<le> 5" by simp
  from already_processed_checks_status[OF this tr p st, of 1000]
  have "sacr_from node_processed tx0 JNull 5 1000 1 w0 = (Return (JStr ''5ig''), processed_w2)"
    using sg by simp
  then show ?thesis using tr p(1) sg by (simp add: sendAndConfirmWithRetry_def)
qed

text \<open>
  C5 as stated fails where the message also contains a pattern tested earlier. Here the
  send is rejected with 'Invalid arguments: This transaction has already been processed':
  the function retries, never looks the status up, and throws after the fifth attempt.
\<close>

definition processed_args_error :: error where
  "processed_args_error = Error ''SendTransactionError''
     ''Invalid arguments: This transaction has already been processed''"

definition node_processed_args :: "(nat, unit) env" where
  "node_processed_args = node_ok\<lparr>sendAndConfirm :=
     (\<lambda>tx x. (Inl processed_args_error, tx\<lparr>signatures := [SigPair (Some [1, 2, 3])]\<rparr>, x))\<rparr>"

theorem already_processed_checks_status_counterexample:
  "fst (sacr_try node_processed_args tx0 JNull 1 5 w0) = Raised processed_args_error \<and>
   str_includes (message processed_args_error) ''This transaction has already been processed'' \<and>
   fst (sendAndConfirmWithRetry node_processed_args tx0 5 1000 w0) =
     Throw (Error ''Error''
       ''Invalid arguments error: Invalid arguments: This transaction has already been processed. Logs: []'') \<and>
   filter (\<lambda>e. e = Call GetTransaction None) (trace (snd (sendAndConfirmWithRetry node_processed_args tx0 5 1000 w0))) = []"
  by (simp add: eval_simps node_processed_args_def node_ok_def tx0_def w0_def processed_args_error_def)

















section \<open>Properties of sendAndConfirmWithRetry: the requests of an attempt\<close>

fun is_send :: "'v event \<Rightarrow> bool" where
  "is_send (Call SendAndConfirm e) = True"
| "is_send _ = False"

fun is_build :: "'v event \<Rightarrow> bool" where
  "is_build (Build i) = True"
| "is_build _ = False"

text \<open>Events that neither build an instruction nor submit a transaction.\<close>

definition no_tx :: "'v event list \<Rightarrow> bool" where
  "no_tx evs \<longleftrightarrow> list_all (\<lambda>e. \<not> is_send e \<and> \<not> is_build e) evs"

lemma no_tx_simps [simp]:
  "no_tx []"
  "no_tx (e # evs) \<longleftrightarrow> \<not> is_send e \<and> \<not> is_build e \<and> no_tx evs"
  "no_tx (xs @ ys) \<longleftrightarrow> no_tx xs \<and> no_tx ys"
  by (auto simp: no_tx_def)

text \<open>The events of a run of \<open>withRetry\<close> on the request \<open>m\<close>: requests \<open>m\<close> and waits.\<close>

definition retry_events :: "rpc_method \<Rightarrow> 'v event list \<Rightarrow> bool" where
  "retry_events m evs \<longleftrightarrow> list_all (\<lambda>e. (\<exists>x. e = Call m x) \<or> (\<exists>d j. e = Sleep d j)) evs"

lemma retry_events_retries: "retry_events m (retries m b a rs)"
  by (induction rs arbitrary: a) (auto simp: retry_events_def)

lemma retry_events_no_tx: "retry_events m evs \<Longrightarrow> m \<noteq> SendAndConfirm \<Longrightarrow> no_tx evs"
  by (induction evs) (auto simp: retry_events_def no_tx_def elim!: is_send.elims)

lemma retries_hd: "rs \<noteq> [] \<Longrightarrow> \<exists>e rest. retries m b a rs @ final = Call m e # rest"
  by (cases rs) auto

lemma five: "1 \<le> (5::nat)"
  by simp

lemma withRetry_trace:
  assumes "withRetry rnd m fn n b w = (r, w')" "1 \<le> n"
  shows "\<exists>evs. trace w' = trace w @ evs \<and> retry_events m evs \<and> (\<exists>e rest. evs = Call m e # rest) \<and>
           (\<forall>v. r = Return v \<longrightarrow> (\<exists>pre. evs = pre @ [Call m None])) \<and> r \<noteq> ReturnUndefined"
proof -
  from withRetry_from_run[OF assms(1)[unfolded withRetry_def]]
  obtain evs where tr: "trace w' = trace w @ evs" and run: "retry_run m n b 1 r evs"
    by blast
  from run assms(2) obtain rs final where
    evs: "evs = retries m b 1 rs @ final"
    and fin: "(final = [Call m None] \<and> (\<exists>v. r = Return v)) \<or>
            (\<exists>err. final = [Call m (Some err)] \<and> r = Throw err) \<or>
            (\<exists>err. final = [Call m (Some err)] \<and> r = Throw max_retries_error)"
    unfolding retry_run_def by (auto split: if_splits)
  have 1: "retry_events m evs"
    using evs fin retry_events_retries[of m b 1 rs] by (auto simp: retry_events_def)
  have 2: "\<exists>e rest. evs = Call m e # rest"
  proof (cases rs)
    case Nil then show ?thesis using evs fin by auto
  next
    case (Cons a list)
    then show ?thesis using retries_hd[of rs m b 1 final] evs by simp
  qed
  have 3: "\<forall>v. r = Return v \<longrightarrow> (\<exists>pre. evs = pre @ [Call m None])"
    using evs fin by auto
  have 4: "r \<noteq> ReturnUndefined" using fin by auto
  show ?thesis using tr 1 2 3 4 by blast
qed

lemma simulate_phase_trace:
  assumes "simulate_phase env tx attempt maxRetries w = (go, w')"
  shows "\<exists>evs. trace w' = trace w @ evs \<and> no_tx evs \<and> (\<exists>e rest. evs = Call SimulateTransaction e # rest) \<and>
           (go \<and> attempt \<noteq> maxRetries \<longrightarrow>
              (\<exists>pre. evs = pre @ [Call SimulateTransaction None, Log SimulationSucceeded]))"
proof -
  obtain r w1 where wr: "withRetry (random100 env) SimulateTransaction (simulateTransaction env tx) 5 1000 w = (r, w1)"
    by (cases "withRetry (random100 env) SimulateTransaction (simulateTransaction env tx) 5 1000 w")
  from withRetry_trace[OF wr five] obtain evs where
    e: "trace w1 = trace w @ evs" "retry_events SimulateTransaction evs"
       "\<exists>e rest. evs = Call SimulateTransaction e # rest"
       "\<forall>v. r = Return v \<longrightarrow> (\<exists>pre. evs = pre @ [Call SimulateTransaction None])"
    by blast
  have nt: "no_tx evs" using e(2) by (rule retry_events_no_tx) simp
  have main: "?thesis"
    if "trace w' = trace w1 @ extra" "no_tx extra"
       "go \<and> attempt \<noteq> maxRetries \<longrightarrow> (\<exists>v. r = Return v) \<and> extra = [Log SimulationSucceeded]"
    for extra
  proof -
    have 1: "trace w' = trace w @ (evs @ extra)" using that(1) e(1) by simp
    have 2: "no_tx (evs @ extra)" using nt that(2) by simp
    have 3: "\<exists>e rest. evs @ extra = Call SimulateTransaction e # rest" using e(3) by auto
    have 4: "go \<and> attempt \<noteq> maxRetries \<longrightarrow>
              (\<exists>pre. evs @ extra = pre @ [Call SimulateTransaction None, Log SimulationSucceeded])"
      using that(3) e(4) by auto
    show ?thesis using 1 2 3 4 by blast
  qed
  have "(go \<and> (\<exists>v. r = Return v) \<and> w' = emit (Log SimulationSucceeded) w1) \<or>
        (\<not> go \<and> attempt \<noteq> maxRetries \<and> w' = emit (Log (SimulationFailed attempt)) w1) \<or>
        (attempt = maxRetries \<and> w' = emit (Log SendingDespiteSimulationFailure)
             (emit (Log (SimulationError attempt)) (emit (Log (SimulationFailed attempt)) w1))) \<or>
        (\<not> go \<and> attempt \<noteq> maxRetries \<and> w' = emit (Log (SimulationError attempt)) w1) \<or>
        (attempt = maxRetries \<and> w' = emit (Log SendingDespiteSimulationFailure)
             (emit (Log (SimulationError attempt)) w1))"
    using assms wr
    by (cases r) (auto simp: simulate_phase_def sim_catch_def Let_def split: if_splits option.splits)
  then show ?thesis
    by (elim disjE conjE) (rule main, simp add: emit_def, simp, simp)+
qed


lemma send_trace:
  "send env tx w = (r, tx', w') \<Longrightarrow> \<exists>e. trace w' = trace w @ [Call SendAndConfirm e]"
  by (auto simp: send_def split: prod.splits sum.splits)

lemma withRetry_no_tx:
  assumes "withRetry rnd m fn 5 b w = (r, w')" "m \<noteq> SendAndConfirm"
  shows "\<exists>evs. trace w' = trace w @ evs \<and> no_tx evs \<and> 1 \<le> invocations evs"
proof -
  from withRetry_trace[OF assms(1) five] obtain evs where
    e: "trace w' = trace w @ evs" "retry_events m evs" "\<exists>e rest. evs = Call m e # rest"
    by blast
  from e(3) have "1 \<le> invocations evs" by (auto simp: invocations_def)
  with e(1) retry_events_no_tx[OF e(2) assms(2)] show ?thesis by blast
qed

text \<open>The confirmation of a signature that is a string starts with a status lookup.\<close>

lemma confirm_step_run:
  assumes "confirm_step env signature w = (r, w')"
  shows "\<exists>c. trace w' = trace w @ c \<and> no_tx c \<and>
           (\<forall>s. signature = JStr s \<longrightarrow> (\<exists>z rest. c = Call GetTransaction z # rest))"
proof (cases signature)
  case (JStr s)
  obtain r1 w1 where wr: "withRetry (random100 env) GetTransaction (getTransaction env s) 5 1000 w = (r1, w1)"
    by (cases "withRetry (random100 env) GetTransaction (getTransaction env s) 5 1000 w")
  have w': "w' = w1" using assms JStr wr
    by (auto simp: confirm_step_def split: completion.splits option.splits)
  from withRetry_trace[OF wr five] obtain c where
    c: "trace w1 = trace w @ c" "retry_events GetTransaction c" "\<exists>e rest. c = Call GetTransaction e # rest"
    by blast
  have "no_tx c" using c(2) by (rule retry_events_no_tx) simp
  with w' c(1,3) show ?thesis by (intro exI[of _ c]) simp
next
  case JUndefined
  with assms show ?thesis by (intro exI[of _ "[]"]) (simp add: confirm_step_def)
next
  case JNull
  with assms show ?thesis by (intro exI[of _ "[]"]) (simp add: confirm_step_def)
next
  case JObj
  with assms show ?thesis by (intro exI[of _ "[]"]) (simp add: confirm_step_def)
qed

lemma confirm_phase_run:
  assumes "confirm_phase env signature fs w = (r, w')"
  shows "\<exists>c. trace w' = trace w @ c \<and> no_tx c \<and>
           (\<forall>s. signature = JStr s \<longrightarrow> (\<exists>z rest. c = Call GetTransaction z # rest))"
proof -
  obtain r1 w1 where cs: "confirm_step env signature w = (r1, w1)"
    by (cases "confirm_step env signature w")
  have "w' = w1" using assms cs by (auto simp: confirm_phase_def split: sum.splits)
  with confirm_step_run[OF cs] show ?thesis by simp
qed

lemma fetch_logs_trace: "fetch_logs env err w = (r, w') \<Longrightarrow> trace w' = trace w @ [GetLogs]"
  by (auto simp: fetch_logs_def split: prod.splits)

lemma sacr_catch_trace:
  assumes "sacr_catch env tx fs attempt maxRetries baseDelay err w = (fl, tx', w')"
  shows "\<exists>evs. trace w' = trace w @ evs \<and> no_tx evs"
proof -
  let ?w0 = "emit (Log (AttemptFailed attempt)) w"
  obtain rl wl where fl: "fetch_logs env err ?w0 = (rl, wl)" by (cases "fetch_logs env err ?w0")
  obtain rt wt where wt: "withRetry (random100 env) GetTransaction
      (getTransaction env (first_signature env tx)) 5 1000 ?w0 = (rt, wt)"
    by (cases "withRetry (random100 env) GetTransaction (getTransaction env (first_signature env tx)) 5 1000 ?w0")
  obtain j x where rn: "random100 env (ext wl) = (j, x)" by (cases "random100 env (ext wl)")
  have 0: "trace ?w0 = trace w @ [Log (AttemptFailed attempt)]" by (simp add: emit_def)
  have l: "trace wl = trace w @ [Log (AttemptFailed attempt), GetLogs]"
    using fetch_logs_trace[OF fl] 0 by simp
  from withRetry_no_tx[OF wt] obtain evs where
    t: "trace wt = trace w @ (Log (AttemptFailed attempt) # evs)" "no_tx evs"
    using 0 by auto
  have "w' = ?w0 \<or> w' = wl \<or> w' = wt \<or>
        w' = \<lparr>ext = x, trace = trace wl @ [Sleep (baseDelay * 2 ^ (attempt - 1)) j]\<rparr>"
    using assms fl wt rn
    by (auto simp: sacr_catch_def Let_def split: if_splits sum.splits completion.splits option.splits)
  then show ?thesis
  proof (elim disjE)
    assume "w' = ?w0" then show ?thesis using 0 by (intro exI[of _ "[Log (AttemptFailed attempt)]"]) simp
  next
    assume "w' = wl" then show ?thesis using l by (intro exI[of _ "[Log (AttemptFailed attempt), GetLogs]"]) simp
  next
    assume "w' = wt" then show ?thesis using t by (intro exI[of _ "Log (AttemptFailed attempt) # evs"]) simp
  next
    assume "w' = \<lparr>ext = x, trace = trace wl @ [Sleep (baseDelay * 2 ^ (attempt - 1)) j]\<rparr>"
    then show ?thesis using l
      by (intro exI[of _ "[Log (AttemptFailed attempt), GetLogs, Sleep (baseDelay * 2 ^ (attempt - 1)) j]"]) simp
  qed
qed

lemma no_tx_no_send: "no_tx evs \<Longrightarrow> filter is_send evs = []"
  by (induction evs) auto

text \<open>
  On every attempt but the last allowed one, the simulation lets the send go ahead only when
  \<open>withRetry\<close> returned a result whose \<open>value.err\<close> is empty.
\<close>

lemma simulate_phase_go:
  assumes "simulate_phase env tx attempt maxRetries w = (True, w2)" "attempt \<noteq> maxRetries"
  shows "\<exists>res w1. withRetry (random100 env) SimulateTransaction (simulateTransaction env tx) 5 1000 w =
             (Return res, w1) \<and> sim_err res = None \<and> w2 = emit (Log SimulationSucceeded) w1"
proof -
  obtain r w1 where wr: "withRetry (random100 env) SimulateTransaction (simulateTransaction env tx) 5 1000 w = (r, w1)"
    by (cases "withRetry (random100 env) SimulateTransaction (simulateTransaction env tx) 5 1000 w")
  show ?thesis
  proof (cases r)
    case (Return res)
    then show ?thesis using assms wr
      by (cases "sim_err res") (simp_all add: simulate_phase_def sim_catch_def Let_def)
  next
    case ReturnUndefined
    then show ?thesis using assms wr by (simp add: simulate_phase_def sim_catch_def Let_def)
  next
    case (Throw err)
    then show ?thesis using assms wr by (simp add: simulate_phase_def sim_catch_def Let_def)
  qed
qed

text \<open>
  What follows a send that resolved (\<open>x = None\<close>): the log line with the signature, and, when
  the signature is a string, the status lookup.
\<close>

definition confirmed_after :: "error option \<Rightarrow> 'v event list \<Rightarrow> bool" where
  "confirmed_after x post \<longleftrightarrow>
     (x = None \<longrightarrow>
        (\<exists>signature rest. post = Log (TransactionSent signature) # rest \<and>
           (\<forall>s. signature = JStr s \<longrightarrow> (\<exists>z r. rest = Call GetTransaction z # r))))"

lemma confirmed_after_extend: "confirmed_after x post \<Longrightarrow> confirmed_after x (post @ extra)"
  unfolding confirmed_after_def by auto

lemma sacr_try_run:
  assumes "sacr_try env tx fs attempt maxRetries w = (fl, tx', fs', w')"
  shows "(\<exists>evs. trace w' = trace w @ evs \<and> no_tx evs \<and> (\<exists>e r. evs = Call GetLatestBlockhash e # r)) \<or>
         (\<exists>blockhash w1 w2 x post.
            withRetry (random100 env) GetLatestBlockhash (getLatestBlockhash env) 5 1000 w =
              (Return blockhash, w1) \<and>
            simulate_phase env (tx\<lparr>recentBlockhash := Some blockhash, feePayer := walletPublicKey env\<rparr>)
              attempt maxRetries w1 = (True, w2) \<and>
            trace w' = trace w2 @ Call SendAndConfirm x # post \<and> no_tx post \<and> confirmed_after x post)"
proof -
  obtain rb w1 where wb: "withRetry (random100 env) GetLatestBlockhash (getLatestBlockhash env) 5 1000 w = (rb, w1)"
    by (cases "withRetry (random100 env) GetLatestBlockhash (getLatestBlockhash env) 5 1000 w")
  from withRetry_trace[OF wb five] obtain bh where
    bh: "trace w1 = trace w @ bh" "retry_events GetLatestBlockhash bh"
        "\<exists>e r. bh = Call GetLatestBlockhash e # r"
    by blast
  have nbh: "no_tx bh" using bh(2) by (rule retry_events_no_tx) simp
  have short: "?thesis" if "w' = w1"
    by (rule disjI1, rule exI[of _ bh]) (use that bh(1,3) nbh in simp)
  show ?thesis
  proof (cases rb)
    case (Return blockhash)
    let ?tx1 = "tx\<lparr>recentBlockhash := Some blockhash, feePayer := walletPublicKey env\<rparr>"
    show ?thesis
    proof (cases "serialize env ?tx1")
      case (Inl err)
      with assms wb Return have "w' = w1" by (simp add: sacr_try_def Let_def)
      then show ?thesis by (rule short)
    next
      case (Inr serializedTx)
      obtain go w2 where sp: "simulate_phase env ?tx1 attempt maxRetries w1 = (go, w2)"
        by (cases "simulate_phase env ?tx1 attempt maxRetries w1")
      from simulate_phase_trace[OF sp] obtain sim where
        sim: "trace w2 = trace w1 @ sim" "no_tx sim"
        by blast
      show ?thesis
      proof (cases go)
        case False
        with assms wb Return Inr sp have "w' = w2" by (simp add: sacr_try_def Let_def)
        then have "trace w' = trace w @ (bh @ sim)" "no_tx (bh @ sim)"
          "\<exists>e r. bh @ sim = Call GetLatestBlockhash e # r"
          using bh(1,3) sim nbh by auto
        then show ?thesis by (intro disjI1 exI[of _ "bh @ sim"] conjI)
      next
        case True
        obtain rs tx2 w3 where sd: "send env ?tx1 w2 = (rs, tx2, w3)"
          by (cases "send env ?tx1 w2") auto
        have e: "trace w3 = trace w2 @ [Call SendAndConfirm (case rs of Inl err \<Rightarrow> Some err | Inr v \<Rightarrow> None)]"
          using sd by (auto simp: send_def split: prod.splits sum.splits)
        show ?thesis
        proof (cases rs)
          case (Inl err)
          with assms wb Return Inr sp True sd have "w' = w3" by (simp add: sacr_try_def Let_def)
          then have "trace w' = trace w2 @ Call SendAndConfirm (Some err) # []"
            using e Inl by simp
          moreover have "confirmed_after (Some err) []" by (simp add: confirmed_after_def)
          moreover note wb[unfolded Return] sp[unfolded True]
          ultimately show ?thesis
            apply (intro disjI2)
            apply (rule exI[of _ blockhash], rule exI[of _ w1], rule exI[of _ w2])
            apply (rule exI[of _ "Some err"], rule exI[of _ "[]"])
            using True by simp
        next
          case r: (Inr signature)
          let ?w3 = "emit (Log (TransactionSent signature)) w3"
          obtain rc w4 where cp: "confirm_phase env signature signature ?w3 = (rc, w4)"
            by (cases "confirm_phase env signature signature ?w3")
          from confirm_phase_run[OF cp] obtain c where
            c: "trace w4 = trace ?w3 @ c" "no_tx c"
               "\<forall>s. signature = JStr s \<longrightarrow> (\<exists>z rest. c = Call GetTransaction z # rest)"
            by (elim exE conjE)
          have "w' = w4" using assms wb Return Inr sp True sd r cp
            by (auto simp: sacr_try_def Let_def split: sum.splits)
          then have "trace w' = trace w2 @ Call SendAndConfirm None # (Log (TransactionSent signature) # c)"
            using c(1) e r by (simp add: emit_def)
          moreover have "no_tx (Log (TransactionSent signature) # c)" using c(2) by simp
          moreover have "confirmed_after None (Log (TransactionSent signature) # c)"
            using c(3) by (simp add: confirmed_after_def)
          moreover note wb[unfolded Return] sp[unfolded True]
          ultimately show ?thesis
            apply (intro disjI2)
            apply (rule exI[of _ blockhash], rule exI[of _ w1], rule exI[of _ w2])
            apply (rule exI[of _ None], rule exI[of _ "Log (TransactionSent signature) # c"])
            using True by simp
        qed
      qed
    qed
  next
    case ReturnUndefined
    with assms wb have "w' = w1" by (simp add: sacr_try_def)
    then show ?thesis by (rule short)
  next
    case (Throw err)
    with assms wb have "w' = w1" by (simp add: sacr_try_def)
    then show ?thesis by (rule short)
  qed
qed

lemma sacr_attempt_run:
  assumes "sacr_attempt env tx fs attempt maxRetries baseDelay w = (fl, tx', fs', w')"
  shows "(\<exists>evs. trace w' = trace w @ evs \<and> no_tx evs \<and> (\<exists>e r. evs = Call GetLatestBlockhash e # r)) \<or>
         (\<exists>blockhash w1 w2 x post.
            withRetry (random100 env) GetLatestBlockhash (getLatestBlockhash env) 5 1000 w =
              (Return blockhash, w1) \<and>
            simulate_phase env (tx\<lparr>recentBlockhash := Some blockhash, feePayer := walletPublicKey env\<rparr>)
              attempt maxRetries w1 = (True, w2) \<and>
            trace w' = trace w2 @ Call SendAndConfirm x # post \<and> no_tx post \<and> confirmed_after x post)"
proof -
  obtain fl1 tx1 fs1 w1 where st: "sacr_try env tx fs attempt maxRetries w = (fl1, tx1, fs1, w1)"
    by (cases "sacr_try env tx fs attempt maxRetries w") auto
  show ?thesis
  proof (cases fl1)
    case (Raised err)
    obtain fl2 tx2 w2 where sc: "sacr_catch env tx1 fs1 attempt maxRetries baseDelay err w1 = (fl2, tx2, w2)"
      by (cases "sacr_catch env tx1 fs1 attempt maxRetries baseDelay err w1") auto
    from sacr_catch_trace[OF sc] obtain c where c: "trace w2 = trace w1 @ c" "no_tx c" by blast
    have w': "w' = w2" using assms st Raised sc by (simp add: sacr_attempt_def)
    from sacr_try_run[OF st] show ?thesis
    proof
      assume "\<exists>evs. trace w1 = trace w @ evs \<and> no_tx evs \<and> (\<exists>e r. evs = Call GetLatestBlockhash e # r)"
      then obtain evs where "trace w1 = trace w @ evs" "no_tx evs" "\<exists>e r. evs = Call GetLatestBlockhash e # r"
        by (elim exE conjE) blast
      then have "trace w' = trace w @ (evs @ c)" "no_tx (evs @ c)"
        "\<exists>e r. evs @ c = Call GetLatestBlockhash e # r"
        using w' c by auto
      then show ?thesis by (intro disjI1 exI[of _ "evs @ c"] conjI)
    next
      assume "\<exists>blockhash wa wb x post.
            withRetry (random100 env) GetLatestBlockhash (getLatestBlockhash env) 5 1000 w =
              (Return blockhash, wa) \<and>
            simulate_phase env (tx\<lparr>recentBlockhash := Some blockhash, feePayer := walletPublicKey env\<rparr>)
              attempt maxRetries wa = (True, wb) \<and>
            trace w1 = trace wb @ Call SendAndConfirm x # post \<and> no_tx post \<and> confirmed_after x post"
      then obtain blockhash wa wb x post where
        a: "withRetry (random100 env) GetLatestBlockhash (getLatestBlockhash env) 5 1000 w =
              (Return blockhash, wa)"
           "simulate_phase env (tx\<lparr>recentBlockhash := Some blockhash, feePayer := walletPublicKey env\<rparr>)
              attempt maxRetries wa = (True, wb)"
           "trace w1 = trace wb @ Call SendAndConfirm x # post" "no_tx post" "confirmed_after x post"
        by (elim exE conjE)
      have "trace w' = trace wb @ Call SendAndConfirm x # (post @ c)" "no_tx (post @ c)"
        "confirmed_after x (post @ c)"
        using w' c a(3,4) confirmed_after_extend[OF a(5)] by simp_all
      with a(1,2) show ?thesis
        apply (intro disjI2)
        apply (rule exI[of _ blockhash], rule exI[of _ wa], rule exI[of _ wb])
        apply (rule exI[of _ x], rule exI[of _ "post @ c"])
        by simp
    qed
  next
    case Continued
    with assms st have "w' = w1" by (simp add: sacr_attempt_def)
    with sacr_try_run[OF st] show ?thesis by simp
  next
    case (Returned v)
    with assms st have "w' = w1" by (simp add: sacr_attempt_def)
    with sacr_try_run[OF st] show ?thesis by simp
  qed
qed

lemma no_tx_not_sent: "no_tx evs \<Longrightarrow> Call SendAndConfirm x \<notin> set evs"
  by (induction evs) auto

lemma retry_events_append [simp]:
  "retry_events m (xs @ ys) \<longleftrightarrow> retry_events m xs \<and> retry_events m ys"
  by (simp add: retry_events_def)

text \<open>The events of an attempt that sends, taken apart.\<close>

lemma sacr_attempt_sent:
  assumes "sacr_attempt env tx fs attempt maxRetries baseDelay w = (fl, tx', fs', w')"
  shows "(\<exists>evs. trace w' = trace w @ evs \<and> no_tx evs \<and> (\<exists>e r. evs = Call GetLatestBlockhash e # r)) \<or>
         (\<exists>blockhash w1 w2 bh y sim x post.
            withRetry (random100 env) GetLatestBlockhash (getLatestBlockhash env) 5 1000 w =
              (Return blockhash, w1) \<and>
            simulate_phase env (tx\<lparr>recentBlockhash := Some blockhash, feePayer := walletPublicKey env\<rparr>)
              attempt maxRetries w1 = (True, w2) \<and>
            trace w1 = trace w @ bh @ [Call GetLatestBlockhash None] \<and>
            trace w2 = trace w1 @ Call SimulateTransaction y # sim \<and>
            trace w' = trace w2 @ Call SendAndConfirm x # post \<and>
            retry_events GetLatestBlockhash bh \<and> no_tx sim \<and> no_tx post \<and> confirmed_after x post \<and>
            (\<exists>e r. bh @ [Call GetLatestBlockhash None] = Call GetLatestBlockhash e # r))"
proof -
  from sacr_attempt_run[OF assms] show ?thesis
  proof
    assume "\<exists>evs. trace w' = trace w @ evs \<and> no_tx evs \<and> (\<exists>e r. evs = Call GetLatestBlockhash e # r)"
    then show ?thesis by (rule disjI1)
  next
    assume "\<exists>blockhash w1 w2 x post.
            withRetry (random100 env) GetLatestBlockhash (getLatestBlockhash env) 5 1000 w =
              (Return blockhash, w1) \<and>
            simulate_phase env (tx\<lparr>recentBlockhash := Some blockhash, feePayer := walletPublicKey env\<rparr>)
              attempt maxRetries w1 = (True, w2) \<and>
            trace w' = trace w2 @ Call SendAndConfirm x # post \<and> no_tx post \<and> confirmed_after x post"
    then obtain blockhash w1 w2 x post where
      a: "withRetry (random100 env) GetLatestBlockhash (getLatestBlockhash env) 5 1000 w =
              (Return blockhash, w1)"
         "simulate_phase env (tx\<lparr>recentBlockhash := Some blockhash, feePayer := walletPublicKey env\<rparr>)
              attempt maxRetries w1 = (True, w2)"
         "trace w' = trace w2 @ Call SendAndConfirm x # post" "no_tx post" "confirmed_after x post"
      by (elim exE conjE)
    from withRetry_trace[OF a(1) five] obtain bhs where
      b: "trace w1 = trace w @ bhs" "retry_events GetLatestBlockhash bhs"
         "\<forall>v. Return blockhash = Return v \<longrightarrow> (\<exists>pre. bhs = pre @ [Call GetLatestBlockhash None])"
         "\<exists>e r. bhs = Call GetLatestBlockhash e # r"
      by (elim exE conjE) blast
    from b(3) obtain bh where bh: "bhs = bh @ [Call GetLatestBlockhash None]" by blast
    from simulate_phase_trace[OF a(2)] obtain sims where
      s: "trace w2 = trace w1 @ sims" "no_tx sims" "\<exists>e rest. sims = Call SimulateTransaction e # rest"
      by (elim exE conjE) blast
    from s(3) obtain y sim where sim: "sims = Call SimulateTransaction y # sim" by blast
    have "trace w1 = trace w @ bh @ [Call GetLatestBlockhash None]" using b(1) bh by simp
    moreover have "trace w2 = trace w1 @ Call SimulateTransaction y # sim" using s(1) sim by simp
    moreover have "retry_events GetLatestBlockhash bh" using b(2) bh by simp
    moreover have "no_tx sim" using s(2) sim by simp
    moreover have "\<exists>e r. bh @ [Call GetLatestBlockhash None] = Call GetLatestBlockhash e # r"
      using b(4) bh by simp
    moreover note a
    ultimately show ?thesis
      apply (intro disjI2)
      apply (rule exI[of _ blockhash], rule exI[of _ w1], rule exI[of _ w2], rule exI[of _ bh])
      apply (rule exI[of _ y], rule exI[of _ sim], rule exI[of _ x], rule exI[of _ post])
      by simp
  qed
qed


text \<open>
  C3, as amended. In every attempt the transaction is submitted (\<open>provider.sendAndConfirm\<close>)
  at most once, and only after the attempt has called
  \<open>provider.connection.simulateTransaction\<close>. In every attempt but the last allowed one
  (\<open>attempt \<noteq> maxRetries\<close>) the send comes only directly after a simulation that reported no
  error: the blockhash was fetched; \<open>withRetry\<close> on the simulation of the transaction, with
  that blockhash and the wallet as fee payer, returned a result \<open>res\<close> whose \<open>value.err\<close> is
  empty (\<open>sim_err res = None\<close>); and what precedes the send in the trace is that run of
  \<open>withRetry\<close>, ending with the call that was answered, and the log line 'Simulation
  succeeded'.
\<close>

theorem send_only_after_simulation:
  assumes "sacr_attempt env tx finalSignature attempt maxRetries baseDelay w = (fl, tx', fs', w')"
  shows "\<exists>evs. trace w' = trace w @ evs \<and>
     (filter is_send evs = [] \<or>
      (\<exists>pre e post. evs = pre @ Call SendAndConfirm e # post \<and>
          filter is_send pre = [] \<and> filter is_send post = [] \<and>
          (\<exists>e'. Call SimulateTransaction e' \<in> set pre) \<and>
          (attempt \<noteq> maxRetries \<longrightarrow>
             (\<exists>blockhash w1 res w2.
                withRetry (random100 env) GetLatestBlockhash (getLatestBlockhash env) 5 1000 w =
                  (Return blockhash, w1) \<and>
                withRetry (random100 env) SimulateTransaction
                  (simulateTransaction env
                     (tx\<lparr>recentBlockhash := Some blockhash, feePayer := walletPublicKey env\<rparr>))
                  5 1000 w1 = (Return res, w2) \<and>
                sim_err res = None \<and>
                trace w @ pre = trace w2 @ [Log SimulationSucceeded] \<and>
                (\<exists>pre'. trace w2 = trace w @ pre' @ [Call SimulateTransaction None])))))"
proof -
  from sacr_attempt_sent[OF assms] show ?thesis
  proof
    assume "\<exists>evs. trace w' = trace w @ evs \<and> no_tx evs \<and> (\<exists>e r. evs = Call GetLatestBlockhash e # r)"
    then obtain evs where "trace w' = trace w @ evs" "no_tx evs" by blast
    then show ?thesis by (intro exI[of _ evs]) (simp add: no_tx_no_send)
  next
    assume "\<exists>blockhash w1 w2 bh y sim x post.
            withRetry (random100 env) GetLatestBlockhash (getLatestBlockhash env) 5 1000 w =
              (Return blockhash, w1) \<and>
            simulate_phase env (tx\<lparr>recentBlockhash := Some blockhash, feePayer := walletPublicKey env\<rparr>)
              attempt maxRetries w1 = (True, w2) \<and>
            trace w1 = trace w @ bh @ [Call GetLatestBlockhash None] \<and>
            trace w2 = trace w1 @ Call SimulateTransaction y # sim \<and>
            trace w' = trace w2 @ Call SendAndConfirm x # post \<and>
            retry_events GetLatestBlockhash bh \<and> no_tx sim \<and> no_tx post \<and> confirmed_after x post \<and>
            (\<exists>e r. bh @ [Call GetLatestBlockhash None] = Call GetLatestBlockhash e # r)"
    then obtain blockhash w1 w2 bh y sim x post where
      a: "withRetry (random100 env) GetLatestBlockhash (getLatestBlockhash env) 5 1000 w =
              (Return blockhash, w1)"
         "simulate_phase env (tx\<lparr>recentBlockhash := Some blockhash, feePayer := walletPublicKey env\<rparr>)
              attempt maxRetries w1 = (True, w2)"
         "trace w1 = trace w @ bh @ [Call GetLatestBlockhash None]"
         "trace w2 = trace w1 @ Call SimulateTransaction y # sim"
         "trace w' = trace w2 @ Call SendAndConfirm x # post"
         "retry_events GetLatestBlockhash bh" "no_tx sim" "no_tx post"
      by (elim exE conjE) blast
    let ?tx1 = "tx\<lparr>recentBlockhash := Some blockhash, feePayer := walletPublicKey env\<rparr>"
    let ?pre = "bh @ [Call GetLatestBlockhash None] @ Call SimulateTransaction y # sim"
    have nbh: "no_tx bh" using a(6) by (rule retry_events_no_tx) simp
    have 1: "trace w' = trace w @ (?pre @ Call SendAndConfirm x # post)" using a(3,4,5) by simp
    have 2: "filter is_send ?pre = []" using nbh a(7) by (simp add: no_tx_no_send)
    have 3: "filter is_send post = []" using a(8) by (simp add: no_tx_no_send)
    have 4: "\<exists>e'. Call SimulateTransaction e' \<in> set ?pre" by auto
    have 5: "\<exists>blockhash w1 res w2.
                withRetry (random100 env) GetLatestBlockhash (getLatestBlockhash env) 5 1000 w =
                  (Return blockhash, w1) \<and>
                withRetry (random100 env) SimulateTransaction
                  (simulateTransaction env
                     (tx\<lparr>recentBlockhash := Some blockhash, feePayer := walletPublicKey env\<rparr>))
                  5 1000 w1 = (Return res, w2) \<and>
                sim_err res = None \<and>
                trace w @ ?pre = trace w2 @ [Log SimulationSucceeded] \<and>
                (\<exists>pre'. trace w2 = trace w @ pre' @ [Call SimulateTransaction None])"
      if "attempt \<noteq> maxRetries"
    proof -
      from simulate_phase_go[OF a(2) that] obtain res ws where
        g: "withRetry (random100 env) SimulateTransaction (simulateTransaction env ?tx1) 5 1000 w1 =
              (Return res, ws)" "sim_err res = None" "w2 = emit (Log SimulationSucceeded) ws"
        by (elim exE conjE)
      from withRetry_trace[OF g(1) five] obtain sevs where
        sv: "trace ws = trace w1 @ sevs"
            "\<forall>v. Return res = Return v \<longrightarrow> (\<exists>pre. sevs = pre @ [Call SimulateTransaction None])"
        by (elim exE conjE) blast
      from sv(2) obtain sp where sp: "sevs = sp @ [Call SimulateTransaction None]" by blast
      have "trace w @ ?pre = trace ws @ [Log SimulationSucceeded]"
        using a(3,4) g(3) by (simp add: emit_def)
      moreover have "trace ws = trace w @ (bh @ [Call GetLatestBlockhash None] @ sp) @ [Call SimulateTransaction None]"
        using sv(1) sp a(3) by simp
      ultimately show ?thesis using a(1) g(1,2)
        apply -
        apply (rule exI[of _ blockhash], rule exI[of _ w1], rule exI[of _ res], rule exI[of _ ws])
        by (intro conjI) simp_all
    qed
    show ?thesis
      apply (rule exI[of _ "?pre @ Call SendAndConfirm x # post"])
      apply (rule conjI[OF 1], rule disjI2)
      apply (rule exI[of _ ?pre], rule exI[of _ x], rule exI[of _ post])
      using 2 3 4 5 by simp
  qed
qed

text \<open>The first attempt on the node where everything succeeds.\<close>

definition ok_w1 :: "(nat, unit) world" where
  "ok_w1 = \<lparr>ext = 0, trace =
     [Call GetLatestBlockhash None, Call SimulateTransaction None, Log SimulationSucceeded,
      Call SendAndConfirm None, Log (TransactionSent (JStr ''sig'')), Call GetTransaction None]\<rparr>"

lemma ok_attempt:
  "sacr_attempt node_ok tx0 JNull 1 5 1000 w0 = (Returned (JStr ''sig''), tx0_sent, JStr ''sig'', ok_w1)"
  by (simp add: eval_simps node_ok_def tx0_def tx0_sent_def w0_def ok_w1_def)

theorem send_only_after_simulation_witness:
  "sacr_attempt node_ok tx0 JNull 1 5 1000 w0 = (Returned (JStr ''sig''), tx0_sent, JStr ''sig'', ok_w1) \<and>
   (1::nat) \<noteq> 5 \<and>
   (\<exists>pre e post blockhash w1 res w2.
      trace ok_w1 = trace w0 @ pre @ Call SendAndConfirm e # post \<and>
      withRetry (random100 node_ok) GetLatestBlockhash (getLatestBlockhash node_ok) 5 1000 w0 =
        (Return blockhash, w1) \<and>
      withRetry (random100 node_ok) SimulateTransaction
        (simulateTransaction node_ok
           (tx0\<lparr>recentBlockhash := Some blockhash, feePayer := walletPublicKey node_ok\<rparr>))
        5 1000 w1 = (Return res, w2) \<and>
      sim_err res = None \<and>
      trace w0 @ pre = trace w2 @ [Log SimulationSucceeded])"
proof -
  have ne: "(1::nat) \<noteq> 5" by simp
  from send_only_after_simulation[OF ok_attempt] obtain evs where
    e: "trace ok_w1 = trace w0 @ evs" and
    d: "filter is_send evs = [] \<or>
      (\<exists>pre e post. evs = pre @ Call SendAndConfirm e # post \<and>
          filter is_send pre = [] \<and> filter is_send post = [] \<and>
          (\<exists>e'. Call SimulateTransaction e' \<in> set pre) \<and>
          ((1::nat) \<noteq> 5 \<longrightarrow>
             (\<exists>blockhash w1 res w2.
                withRetry (random100 node_ok) GetLatestBlockhash (getLatestBlockhash node_ok) 5 1000 w0 =
                  (Return blockhash, w1) \<and>
                withRetry (random100 node_ok) SimulateTransaction
                  (simulateTransaction node_ok
                     (tx0\<lparr>recentBlockhash := Some blockhash, feePayer := walletPublicKey node_ok\<rparr>))
                  5 1000 w1 = (Return res, w2) \<and>
                sim_err res = None \<and>
                trace w0 @ pre = trace w2 @ [Log SimulationSucceeded] \<and>
                (\<exists>pre'. trace w2 = trace w0 @ pre' @ [Call SimulateTransaction None]))))"
    by (elim exE conjE) blast
  from e have "evs = [Call GetLatestBlockhash None, Call SimulateTransaction None, Log SimulationSucceeded,
      Call SendAndConfirm None, Log (TransactionSent (JStr ''sig'')), Call GetTransaction None]"
    by (simp add: ok_w1_def w0_def)
  then have "filter is_send evs \<noteq> []" by simp
  with d ne obtain pre x post blockhash w1 res w2 where
    "evs = pre @ Call SendAndConfirm x # post"
    "withRetry (random100 node_ok) GetLatestBlockhash (getLatestBlockhash node_ok) 5 1000 w0 =
                  (Return blockhash, w1)"
    "withRetry (random100 node_ok) SimulateTransaction
                  (simulateTransaction node_ok
                     (tx0\<lparr>recentBlockhash := Some blockhash, feePayer := walletPublicKey node_ok\<rparr>))
                  5 1000 w1 = (Return res, w2)"
    "sim_err res = None" "trace w0 @ pre = trace w2 @ [Log SimulationSucceeded]"
    by (elim disjE exE conjE) (simp, blast)
  with e ne ok_attempt show ?thesis
    apply (intro conjI)
      apply assumption
     apply assumption
    apply (rule exI[of _ pre], rule exI[of _ x], rule exI[of _ post], rule exI[of _ blockhash])
    apply (rule exI[of _ w1], rule exI[of _ res], rule exI[of _ w2])
    by simp
qed

text \<open>
  A node on which every call of \<open>simulateTransaction\<close> fails, with a message such as a
  client library gives when it rejects the arguments of a call. The code treats every
  failure of the simulation alike, whatever its message.
\<close>

definition rejected_error :: error where
  "rejected_error = Error ''Error'' ''Invalid arguments''"

definition node_rejecting :: "(nat, unit) env" where
  "node_rejecting = node_ok\<lparr>simulateTransaction := (\<lambda>tx x. (Inl rejected_error, x))\<rparr>"

text \<open>
  C3 as stated fails on the last allowed attempt. On the node where every call of
  \<open>simulateTransaction\<close> fails, the first four attempts are given up, and the fifth submits
  the transaction although no simulation has reported anything.
\<close>

definition rejecting_w4 :: "(nat, unit) world" where
  "rejecting_w4 = \<lparr>ext = 0, trace =
     [Call GetLatestBlockhash None, Call SimulateTransaction (Some rejected_error), Log (SimulationError 1),
      Call GetLatestBlockhash None, Call SimulateTransaction (Some rejected_error), Log (SimulationError 2),
      Call GetLatestBlockhash None, Call SimulateTransaction (Some rejected_error), Log (SimulationError 3),
      Call GetLatestBlockhash None, Call SimulateTransaction (Some rejected_error), Log (SimulationError 4)]\<rparr>"

definition rejecting_w5 :: "(nat, unit) world" where
  "rejecting_w5 = \<lparr>ext = 0, trace = trace rejecting_w4 @
     [Call GetLatestBlockhash None, Call SimulateTransaction (Some rejected_error), Log (SimulationError 5),
      Log SendingDespiteSimulationFailure, Call SendAndConfirm None,
      Log (TransactionSent (JStr ''sig'')), Call GetTransaction None]\<rparr>"

theorem send_only_after_simulation_counterexample:
  "sendAndConfirmWithRetry node_rejecting tx0 5 1000 w0 =
     sacr_from node_rejecting tx0_prepared JNull 5 1000 5 rejecting_w4 \<and>
   sacr_attempt node_rejecting tx0_prepared JNull 5 5 1000 rejecting_w4 =
     (Returned (JStr ''sig''), tx0_sent, JStr ''sig'', rejecting_w5) \<and>
   sendAndConfirmWithRetry node_rejecting tx0 5 1000 w0 = (Return (JStr ''sig''), rejecting_w5) \<and>
   filter (\<lambda>e. e = Log SimulationSucceeded) (trace rejecting_w5) = [] \<and>
   filter is_send (trace rejecting_w5) = [Call SendAndConfirm None]"
  by (simp add: eval_simps node_rejecting_def node_ok_def tx0_def tx0_prepared_def tx0_sent_def w0_def
      rejecting_w4_def rejecting_w5_def rejected_error_def)

text \<open>
  C7, as amended. Every attempt sends the transaction at most once, and the send is never
  its only request. The attempt starts with a request for the latest blockhash. If it
  sends, then before the send one of the requests for the blockhash was answered and
  \<open>provider.connection.simulateTransaction\<close> was called, and nothing is sent before or after;
  a send that resolved is followed by the log line with the signature and, when the
  signature is a string, by the status lookup \<open>getTransaction\<close>.
\<close>

theorem one_send_among_requests:
  assumes "sacr_attempt env tx finalSignature attempt maxRetries baseDelay w = (fl, tx', fs', w')"
  shows "\<exists>evs. trace w' = trace w @ evs \<and> length (filter is_send evs) \<le> 1 \<and>
           (\<exists>e rest. evs = Call GetLatestBlockhash e # rest) \<and>
           (\<forall>x. Call SendAndConfirm x \<in> set evs \<longrightarrow>
              (\<exists>bh y sim post.
                 evs = bh @ Call GetLatestBlockhash None # Call SimulateTransaction y # sim @
                         Call SendAndConfirm x # post \<and>
                 retry_events GetLatestBlockhash bh \<and>
                 filter is_send sim = [] \<and> filter is_send post = [] \<and>
                 (x = None \<longrightarrow>
                    (\<exists>signature rest. post = Log (TransactionSent signature) # rest \<and>
                       (\<forall>s. signature = JStr s \<longrightarrow> (\<exists>z r. rest = Call GetTransaction z # r))))))"
proof -
  from sacr_attempt_sent[OF assms] show ?thesis
  proof
    assume "\<exists>evs. trace w' = trace w @ evs \<and> no_tx evs \<and> (\<exists>e r. evs = Call GetLatestBlockhash e # r)"
    then obtain evs where e: "trace w' = trace w @ evs" "no_tx evs" "\<exists>e r. evs = Call GetLatestBlockhash e # r"
      by (elim exE conjE) blast
    then show ?thesis
      by (intro exI[of _ evs]) (simp add: no_tx_no_send no_tx_not_sent)
  next
    assume "\<exists>blockhash w1 w2 bh y sim x post.
            withRetry (random100 env) GetLatestBlockhash (getLatestBlockhash env) 5 1000 w =
              (Return blockhash, w1) \<and>
            simulate_phase env (tx\<lparr>recentBlockhash := Some blockhash, feePayer := walletPublicKey env\<rparr>)
              attempt maxRetries w1 = (True, w2) \<and>
            trace w1 = trace w @ bh @ [Call GetLatestBlockhash None] \<and>
            trace w2 = trace w1 @ Call SimulateTransaction y # sim \<and>
            trace w' = trace w2 @ Call SendAndConfirm x # post \<and>
            retry_events GetLatestBlockhash bh \<and> no_tx sim \<and> no_tx post \<and> confirmed_after x post \<and>
            (\<exists>e r. bh @ [Call GetLatestBlockhash None] = Call GetLatestBlockhash e # r)"
    then obtain blockhash w1 w2 bh y sim x post where
      types: "withRetry (random100 env) GetLatestBlockhash (getLatestBlockhash env) 5 1000 w =
              (Return blockhash, w1)"
         "simulate_phase env (tx\<lparr>recentBlockhash := Some blockhash, feePayer := walletPublicKey env\<rparr>)
              attempt maxRetries w1 = (True, w2)" and
      a: "trace w1 = trace w @ bh @ [Call GetLatestBlockhash None]"
         "trace w2 = trace w1 @ Call SimulateTransaction y # sim"
         "trace w' = trace w2 @ Call SendAndConfirm x # post"
         "retry_events GetLatestBlockhash bh" "no_tx sim" "no_tx post" "confirmed_after x post"
         "\<exists>e r. bh @ [Call GetLatestBlockhash None] = Call GetLatestBlockhash e # r"
      by (elim exE conjE) blast
    let ?evs = "bh @ Call GetLatestBlockhash None # Call SimulateTransaction y # sim @ Call SendAndConfirm x # post"
    have nbh: "no_tx bh" using a(4) by (rule retry_events_no_tx) simp
    have 1: "trace w' = trace w @ ?evs" using a(1,2,3) by simp
    have 2: "filter is_send ?evs = [Call SendAndConfirm x]"
      using nbh a(5,6) by (simp add: no_tx_no_send)
    have 3: "\<exists>e rest. ?evs = Call GetLatestBlockhash e # rest"
    proof -
      from a(8) obtain e r where "bh @ [Call GetLatestBlockhash None] = Call GetLatestBlockhash e # r" by blast
      then have "?evs = Call GetLatestBlockhash e # (r @ Call SimulateTransaction y # sim @ Call SendAndConfirm x # post)"
        by (metis append.assoc append_Cons append_Nil)
      then show ?thesis by blast
    qed
    have 4: "x' = x" if "Call SendAndConfirm x' \<in> set ?evs" for x'
      using that no_tx_not_sent[OF nbh, of x'] no_tx_not_sent[OF a(5), of x'] no_tx_not_sent[OF a(6), of x']
      by auto
    have 5: "\<exists>bh' y' sim' post'.
                 ?evs = bh' @ Call GetLatestBlockhash None # Call SimulateTransaction y' # sim' @
                         Call SendAndConfirm x # post' \<and>
                 retry_events GetLatestBlockhash bh' \<and>
                 filter is_send sim' = [] \<and> filter is_send post' = [] \<and>
                 (x = None \<longrightarrow>
                    (\<exists>signature rest. post' = Log (TransactionSent signature) # rest \<and>
                       (\<forall>s. signature = JStr s \<longrightarrow> (\<exists>z r. rest = Call GetTransaction z # r))))"
      apply (rule exI[of _ bh], rule exI[of _ y], rule exI[of _ sim], rule exI[of _ post])
      using a(4,5,6,7) by (simp add: no_tx_no_send confirmed_after_def)
    have 6: "\<forall>x'. Call SendAndConfirm x' \<in> set ?evs \<longrightarrow>
              (\<exists>bh' y' sim' post'.
                 ?evs = bh' @ Call GetLatestBlockhash None # Call SimulateTransaction y' # sim' @
                         Call SendAndConfirm x' # post' \<and>
                 retry_events GetLatestBlockhash bh' \<and>
                 filter is_send sim' = [] \<and> filter is_send post' = [] \<and>
                 (x' = None \<longrightarrow>
                    (\<exists>signature rest. post' = Log (TransactionSent signature) # rest \<and>
                       (\<forall>s. signature = JStr s \<longrightarrow> (\<exists>z r. rest = Call GetTransaction z # r)))))"
    proof (intro allI impI)
      fix x' assume "Call SendAndConfirm x' \<in> set ?evs"
      from 4[OF this] have "x' = x" .
      with 5 show "\<exists>bh' y' sim' post'.
                 ?evs = bh' @ Call GetLatestBlockhash None # Call SimulateTransaction y' # sim' @
                         Call SendAndConfirm x' # post' \<and>
                 retry_events GetLatestBlockhash bh' \<and>
                 filter is_send sim' = [] \<and> filter is_send post' = [] \<and>
                 (x' = None \<longrightarrow>
                    (\<exists>signature rest. post' = Log (TransactionSent signature) # rest \<and>
                       (\<forall>s. signature = JStr s \<longrightarrow> (\<exists>z r. rest = Call GetTransaction z # r))))"
        by simp
    qed
    have 7: "length (filter is_send ?evs) \<le> 1" using 2 by simp
    from 1 7 3 6 show ?thesis by (intro exI[of _ ?evs] conjI)
  qed
qed

text \<open>The first and the last of five attempts on the node where every call of
  \<open>simulateTransaction\<close> fails.\<close>

definition rejecting_first :: "(nat, unit) world" where
  "rejecting_first = \<lparr>ext = 0, trace =
     [Call GetLatestBlockhash None, Call SimulateTransaction (Some rejected_error), Log (SimulationError 1)]\<rparr>"

definition rejecting_last :: "(nat, unit) world" where
  "rejecting_last = \<lparr>ext = 0, trace =
     [Call GetLatestBlockhash None, Call SimulateTransaction (Some rejected_error), Log (SimulationError 5),
      Log SendingDespiteSimulationFailure, Call SendAndConfirm None,
      Log (TransactionSent (JStr ''sig'')), Call GetTransaction None]\<rparr>"

lemma rejecting_first_attempt:
  "sacr_attempt node_rejecting tx0 JNull 1 5 1000 w0 = (Continued, tx0_prepared, JNull, rejecting_first)"
  by (simp add: eval_simps node_rejecting_def node_ok_def tx0_def tx0_prepared_def w0_def
      rejecting_first_def rejected_error_def)

lemma rejecting_last_attempt:
  "sacr_attempt node_rejecting tx0 JNull 5 5 1000 w0 = (Returned (JStr ''sig''), tx0_sent, JStr ''sig'', rejecting_last)"
  by (simp add: eval_simps node_rejecting_def node_ok_def tx0_def tx0_sent_def w0_def
      rejecting_last_def rejected_error_def)

theorem one_send_among_requests_witness:
  "sacr_attempt node_rejecting tx0 JNull 5 5 1000 w0 =
     (Returned (JStr ''sig''), tx0_sent, JStr ''sig'', rejecting_last) \<and>
   Call SendAndConfirm None \<in> set (trace rejecting_last) \<and>
   (\<exists>bh y sim z r.
      trace rejecting_last = trace w0 @ bh @ Call GetLatestBlockhash None # Call SimulateTransaction y # sim @
        Call SendAndConfirm None # Log (TransactionSent (JStr ''sig'')) # Call GetTransaction z # r)"
proof -
  from one_send_among_requests[OF rejecting_last_attempt] obtain evs where
    e: "trace rejecting_last = trace w0 @ evs" and
    a: "\<forall>x. Call SendAndConfirm x \<in> set evs \<longrightarrow>
              (\<exists>bh y sim post.
                 evs = bh @ Call GetLatestBlockhash None # Call SimulateTransaction y # sim @
                         Call SendAndConfirm x # post \<and>
                 retry_events GetLatestBlockhash bh \<and>
                 filter is_send sim = [] \<and> filter is_send post = [] \<and>
                 (x = None \<longrightarrow>
                    (\<exists>signature rest. post = Log (TransactionSent signature) # rest \<and>
                       (\<forall>s. signature = JStr s \<longrightarrow> (\<exists>z r. rest = Call GetTransaction z # r)))))"
    by (elim exE conjE)
  have evs: "evs = [Call GetLatestBlockhash None, Call SimulateTransaction (Some rejected_error),
      Log (SimulationError 5), Log SendingDespiteSimulationFailure, Call SendAndConfirm None,
      Log (TransactionSent (JStr ''sig'')), Call GetTransaction None]"
    using e by (simp add: rejecting_last_def w0_def)
  then have sent: "Call SendAndConfirm None \<in> set evs" by simp
  with a obtain bh y sim signature rest where
    b: "evs = bh @ Call GetLatestBlockhash None # Call SimulateTransaction y # sim @
                         Call SendAndConfirm None # Log (TransactionSent signature) # rest"
       "\<forall>s. signature = JStr s \<longrightarrow> (\<exists>z r. rest = Call GetTransaction z # r)"
    by blast
  from b(1) have "Log (TransactionSent signature) \<in> set evs" by simp
  then have "signature = JStr ''sig''" unfolding evs by simp
  with b(2) obtain z r where "rest = Call GetTransaction z # r" by blast
  with b(1) \<open>signature = JStr ''sig''\<close> have
    "evs = bh @ Call GetLatestBlockhash None # Call SimulateTransaction y # sim @
        Call SendAndConfirm None # Log (TransactionSent (JStr ''sig'')) # Call GetTransaction z # r"
    by simp
  with e have "trace rejecting_last = trace w0 @ bh @ Call GetLatestBlockhash None #
      Call SimulateTransaction y # sim @
      Call SendAndConfirm None # Log (TransactionSent (JStr ''sig'')) # Call GetTransaction z # r"
    by simp
  then have "\<exists>bh y sim z r.
      trace rejecting_last = trace w0 @ bh @ Call GetLatestBlockhash None # Call SimulateTransaction y # sim @
        Call SendAndConfirm None # Log (TransactionSent (JStr ''sig'')) # Call GetTransaction z # r"
    by blast
  moreover have "Call SendAndConfirm None \<in> set (trace rejecting_last)" using sent e by simp
  ultimately show ?thesis using rejecting_last_attempt by (intro conjI)
qed

text \<open>
  C7 as stated fails on every attempt. On the node where every call of
  \<open>simulateTransaction\<close> fails, the first of five attempts asks for the blockhash and does not
  send at all; the last one sends, after the request for the blockhash and before the
  status lookup.
\<close>

theorem one_send_among_requests_counterexample:
  "sacr_attempt node_rejecting tx0 JNull 1 5 1000 w0 = (Continued, tx0_prepared, JNull, rejecting_first) \<and>
   filter is_call (trace rejecting_first) =
     [Call GetLatestBlockhash None, Call SimulateTransaction (Some rejected_error)] \<and>
   sacr_attempt node_rejecting tx0 JNull 5 5 1000 w0 =
     (Returned (JStr ''sig''), tx0_sent, JStr ''sig'', rejecting_last) \<and>
   filter is_call (trace rejecting_last) =
     [Call GetLatestBlockhash None, Call SimulateTransaction (Some rejected_error),
      Call SendAndConfirm None, Call GetTransaction None]"
  using rejecting_first_attempt rejecting_last_attempt
  by (simp add: rejecting_first_def rejecting_last_def)

section \<open>Properties of executeTransactionSilently\<close>

declare refresh_from.simps [simp del]

text \<open>What a refresh adds to the trace: fetches, waits, state setters for the fetched
  accounts, and log lines.\<close>

fun step_event :: "'v event \<Rightarrow> bool" where
  "step_event (Call (Fetch k) x) = True"
| "step_event (Sleep d j) = True"
| "step_event (SetAccounts k (Some v)) = True"
| "step_event _ = False"

fun refresh_event :: "'v event \<Rightarrow> bool" where
  "refresh_event (Log l) = True"
| "refresh_event e = step_event e"

fun is_refreshing :: "'v event \<Rightarrow> bool" where
  "is_refreshing (Log (RefreshingData k)) = True"
| "is_refreshing _ = False"

definition refresh_attempts :: "'v event list \<Rightarrow> nat" where
  "refresh_attempts evs = length (filter is_refreshing evs)"

lemma step_event_refresh_event: "step_event e \<Longrightarrow> refresh_event e"
  by (cases e) auto

lemma step_event_not_refreshing: "step_event e \<Longrightarrow> \<not> is_refreshing e"
  by (cases e) auto

lemma step_events_attempts: "list_all step_event evs \<Longrightarrow> refresh_attempts evs = 0"
  by (induction evs) (auto simp: refresh_attempts_def step_event_not_refreshing)

lemma step_events_refresh: "list_all step_event evs \<Longrightarrow> list_all refresh_event evs"
  by (induction evs) (auto simp: step_event_refresh_event)

lemma retry_events_step: "retry_events (Fetch k) evs \<Longrightarrow> list_all step_event evs"
  by (induction evs) (auto simp: retry_events_def)

lemma refresh_step_trace:
  assumes "refresh_step env k w = (r, w')"
  shows "\<exists>x rest. trace w' = trace w @ Call (Fetch k) x # rest \<and> list_all step_event rest"
proof -
  obtain r1 w1 where wr: "withRetry (random100 env) (Fetch k) (fetchAccounts env k) 5 1000 w = (r1, w1)"
    by (cases "withRetry (random100 env) (Fetch k) (fetchAccounts env k) 5 1000 w")
  from withRetry_trace[OF wr five] obtain evs x rest where
    e: "trace w1 = trace w @ evs" "retry_events (Fetch k) evs" "evs = Call (Fetch k) x # rest"
    by blast
  have st: "list_all step_event rest" using retry_events_step[OF e(2)] e(3) by simp
  have "w' = w1 \<or> (\<exists>v. w' = emit (SetAccounts k (Some v)) w1)"
    using assms wr by (auto simp: refresh_step_def split: completion.splits sum.splits)
  then show ?thesis
  proof
    assume "w' = w1" with e st show ?thesis by auto
  next
    assume "\<exists>v. w' = emit (SetAccounts k (Some v)) w1"
    then obtain v where "w' = emit (SetAccounts k (Some v)) w1" by blast
    then have "trace w' = trace w @ Call (Fetch k) x # (rest @ [SetAccounts k (Some v)])"
      using e by (simp add: emit_def)
    moreover have "list_all step_event (rest @ [SetAccounts k (Some v)])" using st by simp
    ultimately show ?thesis by blast
  qed
qed

lemma refresh_steps_trace:
  "refresh_steps env ks w = (r, w') \<Longrightarrow> \<exists>evs. trace w' = trace w @ evs \<and> list_all step_event evs"
proof (induction ks arbitrary: w)
  case Nil
  then show ?case by auto
next
  case (Cons k ks)
  obtain r1 w1 where rs: "refresh_step env k w = (r1, w1)" by (cases "refresh_step env k w")
  from refresh_step_trace[OF rs] obtain x rest where
    a: "trace w1 = trace w @ Call (Fetch k) x # rest" "list_all step_event rest" by blast
  show ?case
  proof (cases r1)
    case (Inl err)
    with Cons.prems rs have "w' = w1" by simp
    with a show ?thesis by (intro exI[of _ "Call (Fetch k) x # rest"]) simp
  next
    case (Inr u)
    with Cons.prems rs have "refresh_steps env ks w1 = (r, w')" by simp
    from Cons.IH[OF this] obtain evs where "trace w' = trace w1 @ evs" "list_all step_event evs" by blast
    with a show ?thesis by (intro exI[of _ "Call (Fetch k) x # rest @ evs"]) simp
  qed
qed

lemma refresh_steps_Cons_trace:
  assumes "refresh_steps env (k # ks) w = (r, w')"
  shows "\<exists>x rest. trace w' = trace w @ Call (Fetch k) x # rest \<and> list_all step_event rest"
proof -
  obtain r1 w1 where rs: "refresh_step env k w = (r1, w1)" by (cases "refresh_step env k w")
  from refresh_step_trace[OF rs] obtain x rest where
    a: "trace w1 = trace w @ Call (Fetch k) x # rest" "list_all step_event rest" by blast
  show ?thesis
  proof (cases r1)
    case (Inl err)
    with assms rs have "w' = w1" by simp
    with a show ?thesis by blast
  next
    case (Inr u)
    with assms rs have "refresh_steps env ks w1 = (r, w')" by simp
    from refresh_steps_trace[OF this] obtain evs where "trace w' = trace w1 @ evs" "list_all step_event evs" by blast
    with a have "trace w' = trace w @ Call (Fetch k) x # (rest @ evs)" "list_all step_event (rest @ evs)"
      by simp_all
    then show ?thesis by blast
  qed
qed

text \<open>The first account kind a refresh fetches.\<close>

definition first_fetched :: "string option \<Rightarrow> account_kind" where
  "first_fetched pda = (if pda \<noteq> None then Forum else Post)"

lemma refresh_attempt_trace:
  assumes "refresh_attempt env pda attempt w = (r, w')"
  shows "\<exists>x rest. trace w' = trace w @ Log (RefreshingData attempt) # Call (Fetch (first_fetched pda)) x # rest \<and>
           list_all step_event rest"
proof -
  have "refresh_steps env (first_fetched pda # (if pda \<noteq> None then [Post] else []) @ [Reply, PostReport, ReplyReport])
          (emit (Log (RefreshingData attempt)) w) = (r, w')"
    using assms by (cases pda) (simp_all add: refresh_attempt_def first_fetched_def del: refresh_steps.simps)
  from refresh_steps_Cons_trace[OF this] show ?thesis by (simp add: emit_def)
qed

lemma refresh_from_trace:
  "1 \<le> attempt \<Longrightarrow> attempt \<le> 3 \<Longrightarrow>
     \<exists>x rest. trace (refresh_from env pda attempt w) =
        trace w @ Log (RefreshingData attempt) # Call (Fetch (first_fetched pda)) x # rest \<and>
        list_all refresh_event rest \<and> refresh_attempts rest \<le> 3 - attempt"
proof (induction env pda attempt w rule: refresh_from.induct)
  case (1 env pda attempt w)
  obtain r w1 where ra: "refresh_attempt env pda attempt w = (r, w1)"
    by (cases "refresh_attempt env pda attempt w")
  from refresh_attempt_trace[OF ra] obtain x steps where
    a: "trace w1 = trace w @ Log (RefreshingData attempt) # Call (Fetch (first_fetched pda)) x # steps"
       "list_all step_event steps" by blast
  show ?case
  proof (cases r)
    case (Inr u)
    then have "refresh_from env pda attempt w = w1" using ra "1.prems"
      by (subst refresh_from.simps) simp
    with a show ?thesis using step_events_refresh[OF a(2)] step_events_attempts[OF a(2)] by auto
  next
    case (Inl refreshErr)
    let ?w2 = "emit (Log (DataRefreshFailed attempt)) w1"
    let ?w3 = "if attempt = 3 then emit (Log AllRefreshAttemptsFailed) ?w2 else ?w2"
    let ?w4 = "emit (Sleep 1000 0) ?w3"
    have unfold: "refresh_from env pda attempt w = refresh_from env pda (attempt + 1) ?w4"
      using ra Inl "1.prems" by (subst refresh_from.simps) (simp add: Let_def)
    show ?thesis
    proof (cases "attempt = 3")
      case True
      have "refresh_from env pda (attempt + 1) ?w4 = ?w4" using True
        by (subst refresh_from.simps) simp
      with unfold True a have "trace (refresh_from env pda attempt w) =
          trace w @ Log (RefreshingData attempt) # Call (Fetch (first_fetched pda)) x #
            (steps @ [Log (DataRefreshFailed attempt), Log AllRefreshAttemptsFailed, Sleep 1000 0])"
        by (simp add: emit_def)
      moreover have "list_all refresh_event (steps @ [Log (DataRefreshFailed attempt), Log AllRefreshAttemptsFailed, Sleep 1000 0])"
        using step_events_refresh[OF a(2)] by simp
      moreover have "refresh_attempts (steps @ [Log (DataRefreshFailed attempt), Log AllRefreshAttemptsFailed, Sleep 1000 0]) = 0"
        using step_events_attempts[OF a(2)] by (simp add: refresh_attempts_def)
      ultimately show ?thesis by (metis le0)
    next
      case False
      with "1.prems" have lt: "1 \<le> attempt + 1" "attempt + 1 \<le> 3" by simp_all
      from "1.IH"[OF "1.prems"(2) ra[symmetric] Inl refl refl lt]
      obtain x' rest' where
        b: "trace (refresh_from env pda (attempt + 1) ?w4) =
              trace ?w4 @ Log (RefreshingData (attempt + 1)) # Call (Fetch (first_fetched pda)) x' # rest'"
           "list_all refresh_event rest'" "refresh_attempts rest' \<le> 3 - (attempt + 1)"
        by auto
      let ?rest = "steps @ [Log (DataRefreshFailed attempt), Sleep 1000 0] @
          Log (RefreshingData (attempt + 1)) # Call (Fetch (first_fetched pda)) x' # rest'"
      have "trace (refresh_from env pda attempt w) =
          trace w @ Log (RefreshingData attempt) # Call (Fetch (first_fetched pda)) x # ?rest"
        using unfold b(1) a(1) False by (simp add: emit_def)
      moreover have "list_all refresh_event ?rest"
        using step_events_refresh[OF a(2)] b(2) by simp
      moreover have "refresh_attempts ?rest \<le> 3 - attempt"
        using step_events_attempts[OF a(2)] b(3) lt by (simp add: refresh_attempts_def)
      ultimately show ?thesis by blast
    qed
  qed
qed

lemma refresh_event_quiet: "refresh_event e \<Longrightarrow> \<not> is_send e \<and> \<not> is_build e"
  by (cases e rule: step_event.cases) auto

lemma refresh_event_no_tx: "list_all refresh_event evs \<Longrightarrow> no_tx evs"
  by (induction evs) (auto simp: refresh_event_quiet)

text \<open>
  The events of fetches that succeeded: for each account kind \<open>k\<close>, the requests that were
  retried, the request that was answered, and the setter called with the converted
  accounts \<open>v\<close>.
\<close>

fun fetched :: "(account_kind \<times> (error \<times> nat) list \<times> 'v) list \<Rightarrow> 'v event list" where
  "fetched [] = []"
| "fetched ((k, rs, v) # fs) =
     retries (Fetch k) 1000 1 rs @ [Call (Fetch k) None, SetAccounts k (Some v)] @ fetched fs"

text \<open>What a refresh fetches, in this order.\<close>

definition refreshed :: "string option \<Rightarrow> account_kind list" where
  "refreshed pda = (if pda \<noteq> None then [Forum] else []) @ [Post, Reply, PostReport, ReplyReport]"

text \<open>
  The events of refresh attempts that failed, numbered from \<open>n\<close>: the fetches \<open>fs\<close> succeeded,
  the fetch of \<open>k\<close> did not (its last request failed with \<open>x\<close>, or was answered, \<open>x = None\<close>,
  and the conversion of the answer threw); the failure is logged and followed by a wait of
  one second.
\<close>

fun failed_attempts ::
  "nat \<Rightarrow> ((account_kind \<times> (error \<times> nat) list \<times> 'v) list \<times> account_kind \<times> (error \<times> nat) list \<times> error option) list \<Rightarrow>
     'v event list" where
  "failed_attempts n [] = []"
| "failed_attempts n ((fs, k, rs, x) # others) =
     Log (RefreshingData n) # fetched fs @ retries (Fetch k) 1000 1 rs @
     [Call (Fetch k) x, Log (DataRefreshFailed n)] @
     (if n = 3 then [Log AllRefreshAttemptsFailed] else []) @ [Sleep 1000 0] @
     failed_attempts (n + 1) others"

lemma refresh_step_run:
  assumes "refresh_step env k w = (r, w')"
  shows "(\<exists>rs v. r = Inr () \<and>
            trace w' = trace w @ retries (Fetch k) 1000 1 rs @ [Call (Fetch k) None, SetAccounts k (Some v)]) \<or>
         (\<exists>err rs x. r = Inl err \<and> trace w' = trace w @ retries (Fetch k) 1000 1 rs @ [Call (Fetch k) x])"
proof -
  obtain r1 w1 where wr: "withRetry (random100 env) (Fetch k) (fetchAccounts env k) 5 1000 w = (r1, w1)"
    by (cases "withRetry (random100 env) (Fetch k) (fetchAccounts env k) 5 1000 w")
  from withRetry_from_run[OF wr[unfolded withRetry_def]] obtain evs where
    tr: "trace w1 = trace w @ evs" and run: "retry_run (Fetch k) 5 1000 1 r1 evs" by blast
  from run obtain rs final where
    evs: "evs = retries (Fetch k) 1000 1 rs @ final"
    and fin: "(final = [Call (Fetch k) None] \<and> (\<exists>v. r1 = Return v)) \<or>
              (\<exists>err. final = [Call (Fetch k) (Some err)] \<and> (\<exists>e. r1 = Throw e))"
    unfolding retry_run_def by (auto split: if_splits)
  from fin show ?thesis
  proof
    assume "final = [Call (Fetch k) None] \<and> (\<exists>v. r1 = Return v)"
    then obtain raw where f: "final = [Call (Fetch k) None]" "r1 = Return raw" by blast
    show ?thesis
    proof (cases "decodeAccounts env k raw")
      case (Inl err)
      with assms wr f have "r = Inl err" "w' = w1" by (simp_all add: refresh_step_def)
      with tr evs f have "r = Inl err \<and> trace w' = trace w @ retries (Fetch k) 1000 1 rs @ [Call (Fetch k) None]"
        by simp
      then show ?thesis by blast
    next
      case (Inr v)
      with assms wr f have "r = Inr ()" "w' = emit (SetAccounts k (Some v)) w1"
        by (simp_all add: refresh_step_def)
      with tr evs f have "r = Inr () \<and>
          trace w' = trace w @ retries (Fetch k) 1000 1 rs @ [Call (Fetch k) None, SetAccounts k (Some v)]"
        by (simp add: emit_def)
      then show ?thesis by blast
    qed
  next
    assume "\<exists>err. final = [Call (Fetch k) (Some err)] \<and> (\<exists>e. r1 = Throw e)"
    then obtain err e where f: "final = [Call (Fetch k) (Some err)]" "r1 = Throw e" by blast
    with assms wr have "r = Inl e" "w' = w1" by (simp_all add: refresh_step_def)
    with tr evs f have "r = Inl e \<and> trace w' = trace w @ retries (Fetch k) 1000 1 rs @ [Call (Fetch k) (Some err)]"
      by simp
    then show ?thesis by blast
  qed
qed

lemma refresh_steps_run:
  "refresh_steps env ks w = (r, w') \<Longrightarrow>
     (r = Inr () \<and> (\<exists>fs. map fst fs = ks \<and> trace w' = trace w @ fetched fs)) \<or>
     (\<exists>err fs k rs x. r = Inl err \<and> prefix (map fst fs @ [k]) ks \<and>
        trace w' = trace w @ fetched fs @ retries (Fetch k) 1000 1 rs @ [Call (Fetch k) x])"
proof (induction ks arbitrary: w)
  case Nil
  then have "r = Inr ()" "w' = w" by simp_all
  then have "r = Inr () \<and> (\<exists>fs. map fst fs = [] \<and> trace w' = trace w @ fetched (fs :: (account_kind \<times> (error \<times> nat) list \<times> 'b) list))"
    by (intro conjI exI[of _ "[]"]) simp_all
  then show ?case by (rule disjI1)
next
  case (Cons k ks)
  obtain r1 w1 where rs: "refresh_step env k w = (r1, w1)" by (cases "refresh_step env k w")
  from refresh_step_run[OF rs] show ?case
  proof
    assume "\<exists>rs v. r1 = Inr () \<and>
            trace w1 = trace w @ retries (Fetch k) 1000 1 rs @ [Call (Fetch k) None, SetAccounts k (Some v)]"
    then obtain rs1 v where
      a: "r1 = Inr ()" "trace w1 = trace w @ retries (Fetch k) 1000 1 rs1 @ [Call (Fetch k) None, SetAccounts k (Some v)]"
      by blast
    with Cons.prems rs have run: "refresh_steps env ks w1 = (r, w')" by simp
    from Cons.IH[OF run] show ?thesis
    proof
      assume "r = Inr () \<and> (\<exists>fs. map fst fs = ks \<and> trace w' = trace w1 @ fetched fs)"
      then obtain fs where b: "r = Inr ()" "map fst fs = ks" "trace w' = trace w1 @ fetched fs" by blast
      have "\<exists>fs'. map fst fs' = k # ks \<and> trace w' = trace w @ fetched fs'"
        by (rule exI[of _ "(k, rs1, v) # fs"]) (use a(2) b(2,3) in simp)
      with b(1) show ?thesis by (intro disjI1 conjI)
    next
      assume "\<exists>err fs k' rs x. r = Inl err \<and> prefix (map fst fs @ [k']) ks \<and>
        trace w' = trace w1 @ fetched fs @ retries (Fetch k') 1000 1 rs @ [Call (Fetch k') x]"
      then obtain err fs k' rs2 x where
        b: "r = Inl err" "prefix (map fst fs @ [k']) ks"
           "trace w' = trace w1 @ fetched fs @ retries (Fetch k') 1000 1 rs2 @ [Call (Fetch k') x]"
        by blast
      have "\<exists>err fs' k' rs x. r = Inl err \<and> prefix (map fst fs' @ [k']) (k # ks) \<and>
        trace w' = trace w @ fetched fs' @ retries (Fetch k') 1000 1 rs @ [Call (Fetch k') x]"
        apply (rule exI[of _ err], rule exI[of _ "(k, rs1, v) # fs"], rule exI[of _ k'])
        apply (rule exI[of _ rs2], rule exI[of _ x])
        using a(2) b by simp
      then show ?thesis by (rule disjI2)
    qed
  next
    assume "\<exists>err rs x. r1 = Inl err \<and> trace w1 = trace w @ retries (Fetch k) 1000 1 rs @ [Call (Fetch k) x]"
    then obtain err rs1 x where
      a: "r1 = Inl err" "trace w1 = trace w @ retries (Fetch k) 1000 1 rs1 @ [Call (Fetch k) x]" by blast
    with Cons.prems rs have c: "r = Inl err" "w' = w1" by simp_all
    have "\<exists>err fs' k' rs x. r = Inl err \<and> prefix (map fst fs' @ [k']) (k # ks) \<and>
        trace w' = trace w @ fetched fs' @ retries (Fetch k') 1000 1 rs @ [Call (Fetch k') x]"
      apply (rule exI[of _ err], rule exI[of _ "[]"], rule exI[of _ k])
      apply (rule exI[of _ rs1], rule exI[of _ x])
      using a(2) c by simp
    then show ?thesis by (rule disjI2)
  qed
qed

lemma refresh_attempt_run:
  assumes "refresh_attempt env pda attempt w = (r, w')"
  shows "(r = Inr () \<and> (\<exists>fs. map fst fs = refreshed pda \<and>
            trace w' = trace w @ Log (RefreshingData attempt) # fetched fs)) \<or>
         (\<exists>err fs k rs x. r = Inl err \<and> prefix (map fst fs @ [k]) (refreshed pda) \<and>
            trace w' = trace w @ Log (RefreshingData attempt) # fetched fs @
              retries (Fetch k) 1000 1 rs @ [Call (Fetch k) x])"
proof -
  have "refresh_steps env (refreshed pda) (emit (Log (RefreshingData attempt)) w) = (r, w')"
    using assms by (simp add: refresh_attempt_def refreshed_def del: refresh_steps.simps)
  from refresh_steps_run[OF this] show ?thesis by (simp add: emit_def)
qed

text \<open>How a run of the refresh loop from \<open>attempt\<close> on ends: with an attempt that fetched
  and stored everything, or after the third failure.\<close>

definition refresh_end ::
  "string option \<Rightarrow> nat \<Rightarrow> 'v event list \<Rightarrow> bool" where
  "refresh_end pda n final \<longleftrightarrow>
     n = 4 \<and> final = [] \<or>
     n \<le> 3 \<and> (\<exists>fs. map fst fs = refreshed pda \<and> final = Log (RefreshingData n) # fetched fs)"

lemma refresh_from_run:
  "1 \<le> attempt \<Longrightarrow> attempt \<le> 4 \<Longrightarrow>
     \<exists>failed final.
        trace (refresh_from env pda attempt w) = trace w @ failed_attempts attempt failed @ final \<and>
        (\<forall>(fs, k, rs, x) \<in> set failed. prefix (map fst fs @ [k]) (refreshed pda)) \<and>
        refresh_end pda (attempt + length failed) final"
proof (induction env pda attempt w rule: refresh_from.induct)
  case (1 env pda attempt w)
  show ?case
  proof (cases "attempt \<le> 3")
    case False
    with "1.prems" have "attempt = 4" by simp
    then have "refresh_from env pda attempt w = w" by (subst refresh_from.simps) simp
    then show ?thesis using \<open>attempt = 4\<close>
      by (intro exI[of _ "[]"]) (simp add: refresh_end_def)
  next
    case le: True
    obtain r w1 where ra: "refresh_attempt env pda attempt w = (r, w1)"
      by (cases "refresh_attempt env pda attempt w")
    from refresh_attempt_run[OF ra] show ?thesis
    proof
      assume "r = Inr () \<and> (\<exists>fs. map fst fs = refreshed pda \<and>
            trace w1 = trace w @ Log (RefreshingData attempt) # fetched fs)"
      then obtain fs where a: "r = Inr ()" "map fst fs = refreshed pda"
        "trace w1 = trace w @ Log (RefreshingData attempt) # fetched fs" by blast
      have "refresh_from env pda attempt w = w1" using ra a(1) le
        by (subst refresh_from.simps) simp
      moreover have "refresh_end pda attempt (Log (RefreshingData attempt) # fetched fs)"
        unfolding refresh_end_def using le a(2) by blast
      ultimately show ?thesis using a(3)
        by (intro exI[of _ "[]"] exI[of _ "Log (RefreshingData attempt) # fetched fs"]) simp
    next
      assume "\<exists>err fs k rs x. r = Inl err \<and> prefix (map fst fs @ [k]) (refreshed pda) \<and>
            trace w1 = trace w @ Log (RefreshingData attempt) # fetched fs @
              retries (Fetch k) 1000 1 rs @ [Call (Fetch k) x]"
      then obtain err fs k rs x where
        a: "r = Inl err" "prefix (map fst fs @ [k]) (refreshed pda)"
           "trace w1 = trace w @ Log (RefreshingData attempt) # fetched fs @
              retries (Fetch k) 1000 1 rs @ [Call (Fetch k) x]"
        by blast
      let ?w2 = "emit (Log (DataRefreshFailed attempt)) w1"
      let ?w3 = "if attempt = 3 then emit (Log AllRefreshAttemptsFailed) ?w2 else ?w2"
      let ?w4 = "emit (Sleep 1000 0) ?w3"
      have unfold: "refresh_from env pda attempt w = refresh_from env pda (attempt + 1) ?w4"
        using ra a(1) le by (subst refresh_from.simps) (simp add: Let_def)
      have lt: "1 \<le> attempt + 1" "attempt + 1 \<le> 4" using le by simp_all
      from "1.IH"[OF le ra[symmetric] a(1) refl refl lt]
      obtain failed final where
        b: "trace (refresh_from env pda (attempt + 1) ?w4) =
              trace ?w4 @ failed_attempts (attempt + 1) failed @ final"
           "\<forall>(fs, k, rs, x) \<in> set failed. prefix (map fst fs @ [k]) (refreshed pda)"
           "refresh_end pda (attempt + 1 + length failed) final"
        by blast
      have t4: "trace ?w4 = trace w1 @ Log (DataRefreshFailed attempt) #
          (if attempt = 3 then [Log AllRefreshAttemptsFailed] else []) @ [Sleep 1000 0]"
        by (simp add: emit_def)
      have "trace (refresh_from env pda attempt w) =
          trace w @ failed_attempts attempt ((fs, k, rs, x) # failed) @ final"
        using unfold b(1) t4 a(3) by simp
      moreover have "\<forall>(fs, k, rs, x) \<in> set ((fs, k, rs, x) # failed).
          prefix (map fst fs @ [k]) (refreshed pda)"
        using a(2) b(2) by simp
      moreover have "refresh_end pda (attempt + length ((fs, k, rs, x) # failed)) final"
        using b(3) by simp
      ultimately show ?thesis by blast
    qed
  qed
qed

lemma retries_no_SetError: "SetError m \<notin> set (retries rq b n rs)"
  by (induction rs arbitrary: n) auto

lemma fetched_no_SetError: "SetError m \<notin> set (fetched fs)"
  by (induction fs) (auto simp: retries_no_SetError)

lemma failed_attempts_no_SetError: "SetError m \<notin> set (failed_attempts n failed)"
  by (induction failed arbitrary: n) (auto simp: retries_no_SetError fetched_no_SetError)

text \<open>
  C1. If the wrapped transaction function throws, \<open>executeTransactionSilently\<close> still ends
  normally (it falls off its end). The error is only logged, and what follows it in the
  trace is the refresh and \<open>setLoading(false)\<close>. The refresh is a row of at most three
  attempts. Each attempt fetches, in this order, the forum (when \<open>forumPda\<close> is set), the
  posts, the replies, the post reports and the reply reports, each through \<open>withRetry\<close>, and
  stores each answer with its setter before the next fetch. An attempt in which a fetch
  fails is given up there: the failure is logged, a second passes, and the next attempt
  starts. The refresh ends with the first attempt that has fetched and stored all of them,
  or after the third failure. Nothing of it calls \<open>setError\<close>, whatever the fetches answer.
\<close>

theorem executeTransactionSilently_ignores_error:
  assumes "transactionFn (emit (SetError None) (emit (SetLoading True) w)) = (Inl err, w1)"
  shows "fst (executeTransactionSilently env pda transactionFn w) = ReturnUndefined \<and>
         (\<exists>failed final.
            trace (snd (executeTransactionSilently env pda transactionFn w)) =
              trace w1 @ [Log TransactionErrorCaught] @ failed_attempts 1 failed @ final @
              [SetLoading False] \<and>
            (\<forall>(fs, k, rs, x) \<in> set failed. prefix (map fst fs @ [k]) (refreshed pda)) \<and>
            (length failed = 3 \<and> final = [] \<or>
             length failed < 3 \<and>
               (\<exists>fs. map fst fs = refreshed pda \<and>
                  final = Log (RefreshingData (length failed + 1)) # fetched fs)) \<and>
            (\<forall>m. SetError m \<notin> set (failed_attempts 1 failed @ final)))"
proof -
  let ?w2 = "emit (Log TransactionErrorCaught) w1"
  have ex: "executeTransactionSilently env pda transactionFn w =
      (ReturnUndefined, emit (SetLoading False) (refresh_from env pda 1 ?w2))"
    using assms by (simp add: executeTransactionSilently_def)
  from refresh_from_run[of 1 env pda ?w2] obtain failed final where
    r: "trace (refresh_from env pda 1 ?w2) = trace ?w2 @ failed_attempts 1 failed @ final"
       "\<forall>(fs, k, rs, x) \<in> set failed. prefix (map fst fs @ [k]) (refreshed pda)"
       "refresh_end pda (1 + length failed) final"
    by auto
  have 1: "trace (snd (executeTransactionSilently env pda transactionFn w)) =
              trace w1 @ [Log TransactionErrorCaught] @ failed_attempts 1 failed @ final @
              [SetLoading False]"
    using ex r(1) by (simp add: emit_def)
  have 2: "length failed = 3 \<and> final = [] \<or>
             length failed < 3 \<and>
               (\<exists>fs. map fst fs = refreshed pda \<and>
                  final = Log (RefreshingData (length failed + 1)) # fetched fs)"
    using r(3) unfolding refresh_end_def by auto
  have 3: "\<forall>m. SetError m \<notin> set (failed_attempts 1 failed @ final)"
    using 2 by (auto simp: failed_attempts_no_SetError fetched_no_SetError)
  show ?thesis
    apply (rule conjI)
     apply (simp add: ex)
    apply (rule exI[of _ failed], rule exI[of _ final])
    using 1 r(2) 2 3 by blast
qed

text \<open>A transaction function that throws, on a node where the first fetch of the replies
  fails: the first refresh attempt is given up there, the second fetches everything.\<close>

definition fetch_failed :: error where
  "fetch_failed = Error ''Error'' ''fetch failed''"

definition node_busy :: "(nat, unit) env" where
  "node_busy = node_ok\<lparr>fetchAccounts :=
     (\<lambda>k x. (if k = Reply \<and> x < 3 then Inl fetch_failed else Inr (), x + 1))\<rparr>"

definition failing_tx :: "(nat, unit) world \<Rightarrow> (error + unit) \<times> (nat, unit) world" where
  "failing_tx w = (Inl (Error ''Error'' ''Insufficient SOL.''), w)"

definition busy_w1 :: "(nat, unit) world" where
  "busy_w1 = \<lparr>ext = 0, trace = [SetLoading True, SetError None]\<rparr>"

definition busy_end :: "(nat, unit) world" where
  "busy_end = \<lparr>ext = 8, trace = [SetLoading True, SetError None, Log TransactionErrorCaught,
     Log (RefreshingData 1),
     Call (Fetch Forum) None, SetAccounts Forum (Some ()),
     Call (Fetch Post) None, SetAccounts Post (Some ()),
     Call (Fetch Reply) (Some fetch_failed),
     Log (DataRefreshFailed 1), Sleep 1000 0,
     Log (RefreshingData 2),
     Call (Fetch Forum) None, SetAccounts Forum (Some ()),
     Call (Fetch Post) None, SetAccounts Post (Some ()),
     Call (Fetch Reply) None, SetAccounts Reply (Some ()),
     Call (Fetch PostReport) None, SetAccounts PostReport (Some ()),
     Call (Fetch ReplyReport) None, SetAccounts ReplyReport (Some ()),
     SetLoading False]\<rparr>"

lemmas refresh_simps = refresh_from.simps refresh_attempt_def refresh_step_def
  executeTransactionSilently_def

theorem executeTransactionSilently_ignores_error_witness:
  "failing_tx (emit (SetError None) (emit (SetLoading True) w0)) =
     (Inl (Error ''Error'' ''Insufficient SOL.''), busy_w1) \<and>
   executeTransactionSilently node_busy (Some ''forum'') failing_tx w0 = (ReturnUndefined, busy_end) \<and>
   trace busy_end =
     trace busy_w1 @ [Log TransactionErrorCaught] @
     failed_attempts 1 [([(Forum, [], ()), (Post, [], ())], Reply, [], Some fetch_failed)] @
     (Log (RefreshingData 2) #
      fetched [(Forum, [], ()), (Post, [], ()), (Reply, [], ()), (PostReport, [], ()), (ReplyReport, [], ())]) @
     [SetLoading False] \<and>
   (\<exists>failed final.
      trace busy_end =
        trace busy_w1 @ [Log TransactionErrorCaught] @ failed_attempts 1 failed @ final @ [SetLoading False] \<and>
      (length failed = 3 \<and> final = [] \<or>
       length failed < 3 \<and>
         (\<exists>fs. map fst fs = refreshed (Some ''forum'') \<and>
            final = Log (RefreshingData (length failed + 1)) # fetched fs)))"
proof -
  have a: "failing_tx (emit (SetError None) (emit (SetLoading True) w0)) =
     (Inl (Error ''Error'' ''Insufficient SOL.''), busy_w1)"
    by (simp add: failing_tx_def emit_def w0_def busy_w1_def)
  have b: "executeTransactionSilently node_busy (Some ''forum'') failing_tx w0 =
      (ReturnUndefined, busy_end)"
    by (simp add: eval_simps refresh_simps node_busy_def node_ok_def failing_tx_def w0_def
        busy_end_def fetch_failed_def)
  have c: "trace busy_end =
     trace busy_w1 @ [Log TransactionErrorCaught] @
     failed_attempts 1 [([(Forum, [], ()), (Post, [], ())], Reply, [], Some fetch_failed)] @
     (Log (RefreshingData 2) #
      fetched [(Forum, [], ()), (Post, [], ()), (Reply, [], ()), (PostReport, [], ()), (ReplyReport, [], ())]) @
     [SetLoading False]"
    by (simp add: busy_end_def busy_w1_def)
  from executeTransactionSilently_ignores_error[where transactionFn = failing_tx and w = w0
      and env = node_busy and pda = "Some ''forum''", OF a]
  have "\<exists>failed final.
      trace (snd (executeTransactionSilently node_busy (Some ''forum'') failing_tx w0)) =
        trace busy_w1 @ [Log TransactionErrorCaught] @ failed_attempts 1 failed @ final @ [SetLoading False] \<and>
      (length failed = 3 \<and> final = [] \<or>
       length failed < 3 \<and>
         (\<exists>fs. map fst fs = refreshed (Some ''forum'') \<and>
            final = Log (RefreshingData (length failed + 1)) # fetched fs))"
    by blast
  then show ?thesis using a b c by simp
qed

text \<open>A refusal: the error is set, then the empty transaction function is run through
  \<open>executeTransactionSilently\<close>, which only refreshes.\<close>

definition refused :: "(('x, 'v) world \<Rightarrow> ('x, 'v) world) \<Rightarrow> ('x, 'v) world \<Rightarrow> bool" where
  "refused action w \<longleftrightarrow>
     (\<exists>msg rest. trace (action w) = trace w @ SetError (Some msg) # rest \<and> no_tx rest)"

lemma refuse_refused: "refused (refuse env c msg) w"
proof -
  let ?w1 = "emit (SetError None) (emit (SetLoading True) (emit (SetError (Some msg)) w))"
  from refresh_from_trace[of 1 env "forumPda c" ?w1] obtain x rest where
    r: "trace (refresh_from env (forumPda c) 1 ?w1) =
          trace ?w1 @ Log (RefreshingData 1) # Call (Fetch (first_fetched (forumPda c))) x # rest"
       "list_all refresh_event rest"
    by auto
  have "trace (refuse env c msg w) = trace w @ SetError (Some msg) #
      ([SetLoading True, SetError None, Log (RefreshingData 1), Call (Fetch (first_fetched (forumPda c))) x]
        @ rest @ [SetLoading False])"
    using r(1) by (simp add: refuse_def executeTransactionSilently_def emit_def)
  moreover have "no_tx ([SetLoading True, SetError None, Log (RefreshingData 1),
      Call (Fetch (first_fetched (forumPda c))) x] @ rest @ [SetLoading False])"
    using refresh_event_no_tx[OF r(2)] by simp
  ultimately show ?thesis unfolding refused_def by blast
qed

lemma refused_cong: "action w = refuse env c msg w \<Longrightarrow> refused action w"
  using refuse_refused[of env c msg w] by (simp add: refused_def)

section \<open>Properties of the actions: what is refused\<close>

lemma createPost_refuses:
  assumes "length (''['' @ newPostCategory c @ ''] '' @ newPostContent c) > 280 \<or>
           blank (''['' @ newPostCategory c @ ''] '' @ newPostContent c)"
  shows "\<exists>msg. createPost env c w = refuse env c msg w"
  using assms by (auto simp: createPost_def Let_def split: option.splits)

lemma createReply_refuses:
  assumes "newReplyContent c postId = Some content" "length content > 280 \<or> blank content"
  shows "\<exists>msg. createReply env c postId w = refuse env c msg w"
  using assms by (auto simp: createReply_def split: option.splits)

lemma reportPost_refuses:
  assumes "length (reportReason c) > 100 \<or> blank (reportReason c)"
  shows "\<exists>msg. reportPost env c postId w = refuse env c msg w"
  using assms by (auto simp: reportPost_def split: option.splits)

lemma reportReply_refuses:
  assumes "length (reportReason c) > 100 \<or> blank (reportReason c)"
  shows "\<exists>msg. reportReply env c replyId w = refuse env c msg w"
  using assms by (auto simp: reportReply_def split: option.splits)

text \<open>
  C8. \<open>createPost\<close> refuses when the categorized content \<open>'[' + category + '] ' + content\<close> is
  longer than 280 characters or blank; \<open>createReply\<close> refuses a reply longer than 280
  characters or blank; \<open>reportPost\<close> and \<open>reportReply\<close> refuse a reason longer than 100
  characters or blank. Refusing is: \<open>setError\<close> with a message, then only the refresh of
  \<open>executeTransactionSilently\<close>; no instruction is built and no transaction is sent.
\<close>

theorem content_limits_refuse:
  "(length (''['' @ newPostCategory c @ ''] '' @ newPostContent c) > 280 \<or>
    blank (''['' @ newPostCategory c @ ''] '' @ newPostContent c) \<longrightarrow>
      refused (createPost env c) w) \<and>
   (\<forall>content. newReplyContent c postId = Some content \<and> (length content > 280 \<or> blank content) \<longrightarrow>
      refused (createReply env c postId) w) \<and>
   (length (reportReason c) > 100 \<or> blank (reportReason c) \<longrightarrow>
      refused (reportPost env c postId) w \<and> refused (reportReply env c replyId) w)"
  using createPost_refuses createReply_refuses reportPost_refuses reportReply_refuses
  by (metis refused_cong)

text \<open>A component whose post, reply and report reason are all too long.\<close>

definition overlong :: component where
  "overlong =
     \<lparr>publicKey = Some ''7XeCnBHGWYxpVfd9zCoU3z8FtiSwoGZYk41jcE2sgBxW'',
      forumPda = Some ''forum'',
      newPostContent = replicate 300 CHR ''a'',
      newPostCategory = ''General Chatting'',
      newReplyContent = (\<lambda>p. Some (replicate 281 CHR ''a'')),
      reportReason = replicate 101 CHR ''a'',
      posts = [\<lparr>post_id = ''post1'', post_author = ''author''\<rparr>],
      replies = [''reply1''],
      useSolcial = False,
      solcialBalance = 0,
      evmProvider = True,
      evmAddress = ''0xabc'',
      estimationInfo = True,
      bridgePostContent = ''hello'',
      bridgePostCategory = ''General Chatting''\<rparr>"

theorem content_limits_refuse_witness:
  "length (''['' @ newPostCategory overlong @ ''] '' @ newPostContent overlong) > 280 \<and>
   refused (createPost node_ok overlong) w0 \<and>
   newReplyContent overlong ''post1'' = Some (replicate 281 CHR ''a'') \<and>
   length (replicate 281 CHR ''a'') > 280 \<and>
   refused (createReply node_ok overlong ''post1'') w0 \<and>
   length (reportReason overlong) > 100 \<and>
   refused (reportPost node_ok overlong ''post1'') w0 \<and>
   refused (reportReply node_ok overlong ''reply1'') w0"
proof -
  have a: "length (''['' @ newPostCategory overlong @ ''] '' @ newPostContent overlong) > 280"
    "newReplyContent overlong ''post1'' = Some (replicate 281 CHR ''a'')"
    "length (replicate 281 CHR ''a'') > 280"
    "length (reportReason overlong) > 100"
    by (simp_all add: overlong_def)
  from content_limits_refuse[where c = overlong and env = node_ok and w = w0
      and postId = "''post1''" and replyId = "''reply1''"] a
  show ?thesis by blast
qed






definition moderator :: component where
  "moderator = overlong\<lparr>publicKey := Some ''7XeCnBHGWYxpVfd9zCoU3z8FtiSwoGZYk41jcE2sgBxW''\<rparr>"




declare pollForOrderId_from.simps [simp del] pollForFulfillment_from.simps [simp del]
  refreshForumData_from.simps [simp del]

section \<open>Properties of the bridge-and-post flow\<close>

lemma http_trace: "http url fn w = (r, w') \<Longrightarrow> trace w' = trace w @ [Http url]"
  by (auto simp: http_def split: prod.splits)

lemma evm_trace: "evm what fn w = (r, w') \<Longrightarrow> trace w' = trace w @ [Evm what]"
  by (auto simp: evm_def split: prod.splits)

text \<open>Events among which no status of the bridge order is reported.\<close>

definition quiet :: "'v event list \<Rightarrow> bool" where
  "quiet evs \<longleftrightarrow> (\<forall>n s. Log (BridgeStatus n s) \<notin> set evs)"

lemma quiet_simps [simp]:
  "quiet []"
  "quiet (e # evs) \<longleftrightarrow> (\<forall>n s. e \<noteq> Log (BridgeStatus n s)) \<and> quiet evs"
  "quiet (xs @ ys) \<longleftrightarrow> quiet xs \<and> quiet ys"
  by (auto simp: quiet_def)

definition grows :: "('x, 'v) world \<Rightarrow> ('x, 'v) world \<Rightarrow> bool" where
  "grows w w' \<longleftrightarrow> (\<exists>evs. trace w' = trace w @ evs \<and> quiet evs)"

lemma grows_refl [simp]: "grows w w"
  by (simp add: grows_def)

lemma grows_trans: "grows w w1 \<Longrightarrow> grows w1 w2 \<Longrightarrow> grows w w2"
  unfolding grows_def
proof -
  assume "\<exists>evs. trace w1 = trace w @ evs \<and> quiet evs" "\<exists>evs. trace w2 = trace w1 @ evs \<and> quiet evs"
  then obtain a b where "trace w1 = trace w @ a" "quiet a" "trace w2 = trace w1 @ b" "quiet b" by blast
  then have "trace w2 = trace w @ (a @ b) \<and> quiet (a @ b)" by simp
  then show "\<exists>evs. trace w2 = trace w @ evs \<and> quiet evs" by blast
qed

lemma grows_emit: "(\<And>n s. e \<noteq> Log (BridgeStatus n s)) \<Longrightarrow> grows w (emit e w)"
  unfolding grows_def by (intro exI[of _ "[e]"]) (simp add: emit_def)

lemma grows_then_emit: "grows w w1 \<Longrightarrow> (\<And>n s. e \<noteq> Log (BridgeStatus n s)) \<Longrightarrow> grows w (emit e w1)"
  by (rule grows_trans[OF _ grows_emit])

lemma retry_events_quiet: "retry_events m evs \<Longrightarrow> quiet evs"
  by (induction evs) (auto simp: retry_events_def)

lemma withRetry_grows: "withRetry rnd m fn 5 b w = (r, w') \<Longrightarrow> grows w w'"
  using withRetry_trace[OF _ five] retry_events_quiet unfolding grows_def by blast

lemma simulate_phase_grows:
  assumes "simulate_phase env tx attempt maxRetries w = (go, w')"
  shows "grows w w'"
proof -
  obtain r w1 where wr: "withRetry (random100 env) SimulateTransaction (simulateTransaction env tx) 5 1000 w = (r, w1)"
    by (cases "withRetry (random100 env) SimulateTransaction (simulateTransaction env tx) 5 1000 w")
  have g: "grows w w1" using wr by (rule withRetry_grows)
  have "w' = emit (Log SimulationSucceeded) w1 \<or>
        w' = emit (Log (SimulationFailed attempt)) w1 \<or>
        w' = emit (Log SendingDespiteSimulationFailure)
             (emit (Log (SimulationError attempt)) (emit (Log (SimulationFailed attempt)) w1)) \<or>
        w' = emit (Log (SimulationError attempt)) w1 \<or>
        w' = emit (Log SendingDespiteSimulationFailure) (emit (Log (SimulationError attempt)) w1)"
    using assms wr
    by (cases r) (auto simp: simulate_phase_def sim_catch_def Let_def split: if_splits option.splits)
  then show ?thesis using g by (auto intro!: grows_then_emit)
qed

lemma send_grows: "send env tx w = (r, tx', w') \<Longrightarrow> grows w w'"
  using send_trace unfolding grows_def by fastforce

lemma confirm_phase_grows:
  assumes "confirm_phase env signature fs w = (r, w')"
  shows "grows w w'"
proof -
  obtain r1 w1 where cs: "confirm_step env signature w = (r1, w1)"
    by (cases "confirm_step env signature w")
  have w': "w' = w1" using assms cs by (auto simp: confirm_phase_def split: sum.splits)
  show ?thesis
  proof (cases signature)
    case (JStr s)
    obtain r2 w2 where wr: "withRetry (random100 env) GetTransaction (getTransaction env s) 5 1000 w = (r2, w2)"
      by (cases "withRetry (random100 env) GetTransaction (getTransaction env s) 5 1000 w")
    have "w1 = w2" using cs JStr wr
      by (auto simp: confirm_step_def split: completion.splits option.splits)
    with withRetry_grows[OF wr] w' show ?thesis by simp
  qed (use cs w' in \<open>auto simp: confirm_step_def\<close>)
qed

lemma sacr_try_grows:
  assumes "sacr_try env tx fs attempt maxRetries w = (fl, tx', fs', w')"
  shows "grows w w'"
proof -
  obtain rb w1 where wb: "withRetry (random100 env) GetLatestBlockhash (getLatestBlockhash env) 5 1000 w = (rb, w1)"
    by (cases "withRetry (random100 env) GetLatestBlockhash (getLatestBlockhash env) 5 1000 w")
  have g1: "grows w w1" using wb by (rule withRetry_grows)
  show ?thesis
  proof (cases rb)
    case (Return blockhash)
    let ?tx1 = "tx\<lparr>recentBlockhash := Some blockhash, feePayer := walletPublicKey env\<rparr>"
    show ?thesis
    proof (cases "serialize env ?tx1")
      case (Inl err)
      with assms wb Return have "w' = w1" by (simp add: sacr_try_def Let_def)
      with g1 show ?thesis by simp
    next
      case (Inr serializedTx)
      obtain go w2 where sp: "simulate_phase env ?tx1 attempt maxRetries w1 = (go, w2)"
        by (cases "simulate_phase env ?tx1 attempt maxRetries w1")
      have g2: "grows w w2" using g1 simulate_phase_grows[OF sp] by (rule grows_trans)
      show ?thesis
      proof (cases go)
        case False
        with assms wb Return Inr sp have "w' = w2" by (simp add: sacr_try_def Let_def)
        with g2 show ?thesis by simp
      next
        case True
        obtain rs tx2 w3 where sd: "send env ?tx1 w2 = (rs, tx2, w3)"
          by (cases "send env ?tx1 w2") auto
        have g3: "grows w w3" using g2 send_grows[OF sd] by (rule grows_trans)
        show ?thesis
        proof (cases rs)
          case (Inl err)
          with assms wb Return Inr sp True sd have "w' = w3" by (simp add: sacr_try_def Let_def)
          with g3 show ?thesis by simp
        next
          case r: (Inr signature)
          let ?w3 = "emit (Log (TransactionSent signature)) w3"
          obtain rc w4 where cp: "confirm_phase env signature signature ?w3 = (rc, w4)"
            by (cases "confirm_phase env signature signature ?w3")
          have "w' = w4" using assms wb Return Inr sp True sd r cp
            by (auto simp: sacr_try_def Let_def split: sum.splits)
          moreover have "grows w ?w3" using g3 by (rule grows_then_emit) simp
          ultimately show ?thesis using confirm_phase_grows[OF cp] by (auto intro: grows_trans)
        qed
      qed
    qed
  next
    case ReturnUndefined
    with assms wb have "w' = w1" by (simp add: sacr_try_def)
    with g1 show ?thesis by simp
  next
    case (Throw err)
    with assms wb have "w' = w1" by (simp add: sacr_try_def)
    with g1 show ?thesis by simp
  qed
qed

lemma sacr_catch_grows:
  assumes "sacr_catch env tx fs attempt maxRetries baseDelay err w = (fl, tx', w')"
  shows "grows w w'"
proof -
  let ?w0 = "emit (Log (AttemptFailed attempt)) w"
  obtain rl wl where fl: "fetch_logs env err ?w0 = (rl, wl)" by (cases "fetch_logs env err ?w0")
  obtain rt wt where wt: "withRetry (random100 env) GetTransaction
      (getTransaction env (first_signature env tx)) 5 1000 ?w0 = (rt, wt)"
    by (cases "withRetry (random100 env) GetTransaction (getTransaction env (first_signature env tx)) 5 1000 ?w0")
  obtain j x where rn: "random100 env (ext wl) = (j, x)" by (cases "random100 env (ext wl)")
  have 0: "grows w ?w0" by (rule grows_emit) simp
  have l: "grows w wl"
    using fetch_logs_trace[OF fl] unfolding grows_def
    by (intro exI[of _ "[Log (AttemptFailed attempt), GetLogs]"]) (simp add: emit_def)
  have t: "grows w wt" using 0 withRetry_grows[OF wt] by (rule grows_trans)
  have s: "grows w \<lparr>ext = x, trace = trace wl @ [Sleep (baseDelay * 2 ^ (attempt - 1)) j]\<rparr>"
    using fetch_logs_trace[OF fl] unfolding grows_def
    by (intro exI[of _ "[Log (AttemptFailed attempt), GetLogs, Sleep (baseDelay * 2 ^ (attempt - 1)) j]"])
       (simp add: emit_def)
  have "w' = ?w0 \<or> w' = wl \<or> w' = wt \<or>
        w' = \<lparr>ext = x, trace = trace wl @ [Sleep (baseDelay * 2 ^ (attempt - 1)) j]\<rparr>"
    using assms fl wt rn
    by (auto simp: sacr_catch_def Let_def split: if_splits sum.splits completion.splits option.splits)
  then show ?thesis using 0 l t s by auto
qed

lemma sacr_attempt_grows:
  assumes "sacr_attempt env tx fs attempt maxRetries baseDelay w = (fl, tx', fs', w')"
  shows "grows w w'"
proof -
  obtain fl1 tx1 fs1 w1 where st: "sacr_try env tx fs attempt maxRetries w = (fl1, tx1, fs1, w1)"
    by (cases "sacr_try env tx fs attempt maxRetries w") auto
  note g = sacr_try_grows[OF st]
  show ?thesis
  proof (cases fl1)
    case (Raised err)
    obtain fl2 tx2 w2 where sc: "sacr_catch env tx1 fs1 attempt maxRetries baseDelay err w1 = (fl2, tx2, w2)"
      by (cases "sacr_catch env tx1 fs1 attempt maxRetries baseDelay err w1") auto
    have "w' = w2" using assms st Raised sc by (simp add: sacr_attempt_def)
    then show ?thesis using g sacr_catch_grows[OF sc] by (auto intro: grows_trans)
  qed (use assms st g in \<open>auto simp: sacr_attempt_def\<close>)
qed

lemma sacr_from_grows:
  "sacr_from env tx fs maxRetries baseDelay attempt w = (r, w') \<Longrightarrow> grows w w'"
proof (induction env tx fs maxRetries baseDelay attempt w arbitrary: r w' rule: sacr_from.induct)
  case (1 env tx fs maxRetries baseDelay attempt w)
  show ?case
  proof (cases "attempt \<le> maxRetries")
    case False
    with "1.prems" have "w' = w" by (subst (asm) sacr_from.simps) simp
    then show ?thesis by simp
  next
    case True
    obtain fl tx1 fs1 w1 where at: "sacr_attempt env tx fs attempt maxRetries baseDelay w = (fl, tx1, fs1, w1)"
      by (cases "sacr_attempt env tx fs attempt maxRetries baseDelay w") auto
    note g = sacr_attempt_grows[OF at]
    show ?thesis
    proof (cases fl)
      case Continued
      with "1.prems" True at
      have run: "sacr_from env tx1 fs1 maxRetries baseDelay (attempt + 1) w1 = (r, w')"
        by (subst (asm) sacr_from.simps) simp
      from "1.IH"[OF True at[symmetric] Continued refl refl run] g show ?thesis
        by (auto intro: grows_trans)
    next
      case (Returned v)
      with "1.prems" True at have "w' = w1" by (subst (asm) sacr_from.simps) simp
      with g show ?thesis by simp
    next
      case (Raised err)
      with "1.prems" True at have "w' = w1" by (subst (asm) sacr_from.simps) simp
      with g show ?thesis by simp
    qed
  qed
qed

lemma createAndSendPost_grows:
  assumes "createAndSendPost env content w = (r, w')"
  shows "grows w w'"
proof -
  obtain r1 w1 where a: "withRetry (random100 env) (Fetch Forum) (fetchAccounts env Forum) 5 1000 w = (r1, w1)"
    by (cases "withRetry (random100 env) (Fetch Forum) (fetchAccounts env Forum) 5 1000 w")
  obtain r2 w2 where b: "withRetry (random100 env) GetAccountInfo (getAccountInfo env POST_FEE_RECIPIENT) 5 1000 w1 = (r2, w2)"
    by (cases "withRetry (random100 env) GetAccountInfo (getAccountInfo env POST_FEE_RECIPIENT) 5 1000 w1")
  let ?tx = "\<lparr>instructions = [SetComputeUnitLimit 1000000, SetComputeUnitPrice 500000, CreatePost content],
                    recentBlockhash = None, feePayer = None, signatures = []\<rparr>"
  obtain r3 w3 where c: "sendAndConfirmWithRetry env ?tx 5 1000 (emit (Build (CreatePost content)) w2) = (r3, w3)"
    by (cases "sendAndConfirmWithRetry env ?tx 5 1000 (emit (Build (CreatePost content)) w2)")
  have g1: "grows w w1" using a by (rule withRetry_grows)
  have g2: "grows w w2" using g1 withRetry_grows[OF b] by (rule grows_trans)
  have "grows w (emit (Build (CreatePost content)) w2)" using g2 by (rule grows_then_emit) simp
  then have g3: "grows w w3"
    using sacr_from_grows[OF c[unfolded sendAndConfirmWithRetry_def]] by (rule grows_trans)
  have "w' = w1 \<or> w' = w2 \<or> w' = w3"
    using assms a b c
    by (auto simp: createAndSendPost_def split: completion.splits bool.splits)
  then show ?thesis using g1 g2 g3 by auto
qed

lemma step_events_quiet: "list_all step_event evs \<Longrightarrow> quiet evs"
  by (induction evs) auto

lemma refreshForumData_from_grows:
  "refreshForumData_from env attempt w = (r, w') \<Longrightarrow> grows w w'"
proof (induction env attempt w arbitrary: r w' rule: refreshForumData_from.induct)
  case (1 env attempt w)
  show ?case
  proof (cases "attempt \<le> 3")
    case False
    with "1.prems" have "w' = w" by (subst (asm) refreshForumData_from.simps) simp
    then show ?thesis by simp
  next
    case True
    obtain r1 w1 where rs: "refresh_steps env [Forum, Post] w = (r1, w1)"
      by (cases "refresh_steps env [Forum, Post] w")
    from refresh_steps_trace[OF rs] have g: "grows w w1"
      unfolding grows_def using step_events_quiet by blast
    show ?thesis
    proof (cases r1)
      case (Inr u)
      with "1.prems" True rs have "w' = w1" by (subst (asm) refreshForumData_from.simps) simp
      with g show ?thesis by simp
    next
      case (Inl refreshErr)
      show ?thesis
      proof (cases "attempt = 3")
        case t: True
        with "1.prems" True rs Inl have "w' = w1" by (subst (asm) refreshForumData_from.simps) simp
        with g show ?thesis by simp
      next
        case False
        with "1.prems" True rs Inl
        have run: "refreshForumData_from env (attempt + 1) (emit (Sleep 1000 0) w1) = (r, w')"
          by (subst (asm) refreshForumData_from.simps) simp
        have "grows w (emit (Sleep 1000 0) w1)" using g by (rule grows_then_emit) simp
        with "1.IH"[OF True rs[symmetric] Inl False run] show ?thesis
          by (auto intro: grows_trans)
      qed
    qed
  qed
qed

lemma grows_extends: "grows w w' \<Longrightarrow> \<exists>evs. trace w' = trace w @ evs"
  by (auto simp: grows_def)

lemma pollForOrderId_from_trace:
  "pollForOrderId_from env txHash maxPolls pollCount w = (r, w') \<Longrightarrow>
     \<exists>evs. trace w' = trace w @ evs \<and> no_tx evs"
proof (induction env txHash maxPolls pollCount w arbitrary: r w' rule: pollForOrderId_from.induct)
  case (1 env txHash maxPolls pollCount w)
  show ?case
  proof (cases "pollCount < maxPolls")
    case False
    with "1.prems" have "w' = w" by (subst (asm) pollForOrderId_from.simps) simp
    then show ?thesis by (intro exI[of _ "[]"]) simp
  next
    case True
    obtain r1 w1 where h: "http ''order-id'' (bridgeOrderId env txHash) w = (r1, w1)"
      by (cases "http ''order-id'' (bridgeOrderId env txHash) w")
    have t1: "trace w1 = trace w @ [Http ''order-id'']" using http_trace[OF h] .
    let ?w2 = "emit (Sleep 5000 0) w1"
    have rec: "\<exists>evs. trace w' = trace w @ evs \<and> no_tx evs"
      if "\<exists>evs. trace w' = trace ?w2 @ evs \<and> no_tx evs"
    proof -
      from that obtain evs where "trace w' = trace ?w2 @ evs" "no_tx evs" by blast
      then have "trace w' = trace w @ ([Http ''order-id'', Sleep 5000 0] @ evs)"
        "no_tx ([Http ''order-id'', Sleep 5000 0] @ evs)"
        using t1 by (simp_all add: emit_def)
      then show ?thesis by blast
    qed
    show ?thesis
    proof (cases r1)
      case (Inl err)
      with "1.prems" True h have "pollForOrderId_from env txHash maxPolls (pollCount + 1) ?w2 = (r, w')"
        by (subst (asm) pollForOrderId_from.simps) simp
      from "1.IH"(1)[OF True h[symmetric] Inl this] show ?thesis by (rule rec)
    next
      case (Inr orderId)
      show ?thesis
      proof (cases "truthy orderId")
        case False
        with "1.prems" True h Inr
        have "pollForOrderId_from env txHash maxPolls (pollCount + 1) ?w2 = (r, w')"
          by (subst (asm) pollForOrderId_from.simps) simp
        from "1.IH"(2)[OF True h[symmetric] Inr False this] show ?thesis by (rule rec)
      next
        case t: True
        with "1.prems" True h Inr have "w' = w1"
          by (subst (asm) pollForOrderId_from.simps) simp
        with t1 show ?thesis by (intro exI[of _ "[Http ''order-id'']"]) simp
      qed
    qed
  qed
qed

text \<open>The polls for the order id report no status.\<close>

lemma pollForOrderId_from_quiet:
  "pollForOrderId_from env txHash maxPolls pollCount w = (r, w') \<Longrightarrow> grows w w'"
proof (induction env txHash maxPolls pollCount w arbitrary: r w' rule: pollForOrderId_from.induct)
  case (1 env txHash maxPolls pollCount w)
  show ?case
  proof (cases "pollCount < maxPolls")
    case False
    with "1.prems" have "w' = w" by (subst (asm) pollForOrderId_from.simps) simp
    then show ?thesis by simp
  next
    case True
    obtain r1 w1 where h: "http ''order-id'' (bridgeOrderId env txHash) w = (r1, w1)"
      by (cases "http ''order-id'' (bridgeOrderId env txHash) w")
    have g1: "grows w w1" using http_trace[OF h] unfolding grows_def by simp
    let ?w2 = "emit (Sleep 5000 0) w1"
    have g2: "grows w ?w2" using g1 by (rule grows_then_emit) simp
    show ?thesis
    proof (cases r1)
      case (Inl err)
      with "1.prems" True h have "pollForOrderId_from env txHash maxPolls (pollCount + 1) ?w2 = (r, w')"
        by (subst (asm) pollForOrderId_from.simps) simp
      from "1.IH"(1)[OF True h[symmetric] Inl this] g2 show ?thesis by (auto intro: grows_trans)
    next
      case (Inr orderId)
      show ?thesis
      proof (cases "truthy orderId")
        case False
        with "1.prems" True h Inr
        have "pollForOrderId_from env txHash maxPolls (pollCount + 1) ?w2 = (r, w')"
          by (subst (asm) pollForOrderId_from.simps) simp
        from "1.IH"(2)[OF True h[symmetric] Inr False this] g2 show ?thesis by (auto intro: grows_trans)
      next
        case t: True
        with "1.prems" True h Inr have "w' = w1"
          by (subst (asm) pollForOrderId_from.simps) simp
        with g1 show ?thesis by simp
      qed
    qed
  qed
qed

text \<open>A poll that answered 'Fulfilled', among the first \<open>maxPolls\<close>.\<close>

definition fulfilled_seen :: "nat \<Rightarrow> 'v event list \<Rightarrow> bool" where
  "fulfilled_seen maxPolls evs \<longleftrightarrow>
     (\<exists>n. 1 \<le> n \<and> n \<le> maxPolls \<and> Log (BridgeStatus n (JStr ''Fulfilled'')) \<in> set evs)"

definition no_fulfilled :: "'v event list \<Rightarrow> bool" where
  "no_fulfilled evs \<longleftrightarrow> (\<forall>n. Log (BridgeStatus n (JStr ''Fulfilled'')) \<notin> set evs)"

lemma no_fulfilled_simps [simp]:
  "no_fulfilled []"
  "no_fulfilled (e # evs) \<longleftrightarrow> (\<forall>n. e \<noteq> Log (BridgeStatus n (JStr ''Fulfilled''))) \<and> no_fulfilled evs"
  "no_fulfilled (xs @ ys) \<longleftrightarrow> no_fulfilled xs \<and> no_fulfilled ys"
  by (auto simp: no_fulfilled_def)

lemma fulfilled_seen_append [simp]:
  "fulfilled_seen m (xs @ ys) \<longleftrightarrow> fulfilled_seen m xs \<or> fulfilled_seen m ys"
  by (auto simp: fulfilled_seen_def)

lemma pollForFulfillment_from_trace:
  "pollForFulfillment_from env orderId maxPolls st pollCount w = (r, w') \<Longrightarrow> st \<noteq> JStr ''Fulfilled'' \<Longrightarrow>
     \<exists>evs. trace w' = trace w @ evs \<and> no_tx evs \<and>
       (if r = JStr ''Fulfilled'' then fulfilled_seen maxPolls evs else no_fulfilled evs)"
proof (induction env orderId maxPolls st pollCount w arbitrary: r w' rule: pollForFulfillment_from.induct)
  case (1 env orderId maxPolls st pollCount w)
  show ?case
  proof (cases "pollCount < maxPolls")
    case False
    with "1.prems" have "w' = w" "r = st" by (subst (asm) pollForFulfillment_from.simps, simp)+
    with "1.prems"(2) show ?thesis by (intro exI[of _ "[]"]) simp
  next
    case True
    obtain r1 w1 where h: "http ''status'' (bridgeOrderStatus env orderId) w = (r1, w1)"
      by (cases "http ''status'' (bridgeOrderStatus env orderId) w")
    have t1: "trace w1 = trace w @ [Http ''status'']" using http_trace[OF h] .
    have cond: "st \<noteq> JStr ''Fulfilled'' \<and> pollCount < maxPolls" using True "1.prems"(2) by simp
    show ?thesis
    proof (cases r1)
      case (Inl err)
      let ?w2 = "emit (Sleep 10000 0) w1"
      from "1.prems" True h Inl
      have run: "pollForFulfillment_from env orderId maxPolls st (pollCount + 1) ?w2 = (r, w')"
        by (subst (asm) pollForFulfillment_from.simps) simp
      from "1.IH"(1)[OF cond h[symmetric] Inl run "1.prems"(2)] obtain evs where
        e: "trace w' = trace ?w2 @ evs" "no_tx evs"
           "if r = JStr ''Fulfilled'' then fulfilled_seen maxPolls evs else no_fulfilled evs"
        by blast
      have "trace w' = trace w @ ([Http ''status'', Sleep 10000 0] @ evs)"
        using e(1) t1 by (simp add: emit_def)
      moreover have "no_tx ([Http ''status'', Sleep 10000 0] @ evs)" using e(2) by simp
      moreover have "if r = JStr ''Fulfilled'' then fulfilled_seen maxPolls ([Http ''status'', Sleep 10000 0] @ evs)
           else no_fulfilled ([Http ''status'', Sleep 10000 0] @ evs)"
        using e(3) by (auto simp: fulfilled_seen_def)
      ultimately show ?thesis by blast
    next
      case (Inr st')
      let ?w2 = "emit (Log (BridgeStatus (pollCount + 1) st')) w1"
      have t2: "trace ?w2 = trace w @ [Http ''status'', Log (BridgeStatus (pollCount + 1) st')]"
        using t1 by (simp add: emit_def)
      show ?thesis
      proof (cases "st' = JStr ''Fulfilled''")
        case f: True
        with "1.prems" True h Inr have "w' = ?w2" "r = JStr ''Fulfilled''"
          by (subst (asm) pollForFulfillment_from.simps, simp add: Let_def)+
        moreover have "fulfilled_seen maxPolls [Http ''status'', Log (BridgeStatus (pollCount + 1) st')]"
          using f True by (auto simp: fulfilled_seen_def intro!: exI[of _ "pollCount + 1"])
        ultimately show ?thesis using t2
          by (intro exI[of _ "[Http ''status'', Log (BridgeStatus (pollCount + 1) st')]"]) simp
      next
        case nf: False
        show ?thesis
        proof (cases "st' = JStr ''Failed'' \<or> st' = JStr ''Expired''")
          case True
          with "1.prems" \<open>pollCount < maxPolls\<close> h Inr nf have "w' = ?w2" "r = st'"
            by (subst (asm) pollForFulfillment_from.simps, simp add: Let_def)+
          then show ?thesis using t2 nf
            by (intro exI[of _ "[Http ''status'', Log (BridgeStatus (pollCount + 1) st')]"]) auto
        next
          case False
          let ?w3 = "emit (Sleep 10000 0) ?w2"
          from "1.prems" \<open>pollCount < maxPolls\<close> h Inr nf False
          have run: "pollForFulfillment_from env orderId maxPolls st' (pollCount + 1) ?w3 = (r, w')"
            by (subst (asm) pollForFulfillment_from.simps) (simp add: Let_def)
          from "1.IH"(2)[OF cond h[symmetric] Inr refl nf False run nf] obtain evs where
            e: "trace w' = trace ?w3 @ evs" "no_tx evs"
               "if r = JStr ''Fulfilled'' then fulfilled_seen maxPolls evs else no_fulfilled evs"
            by blast
          let ?evs = "[Http ''status'', Log (BridgeStatus (pollCount + 1) st'), Sleep 10000 0] @ evs"
          have "trace w' = trace w @ ?evs" using e(1) t2 by (simp add: emit_def)
          moreover have "no_tx ?evs" using e(2) by simp
          moreover have "if r = JStr ''Fulfilled'' then fulfilled_seen maxPolls ?evs else no_fulfilled ?evs"
            using e(3) nf by (auto simp: fulfilled_seen_def)
          ultimately show ?thesis by blast
        qed
      qed
    qed
  qed
qed


text \<open>
  The statuses that end the polling, and what the polling adds to the trace: such a status
  is reported by the last poll only, and is what \<open>pollForFulfillment\<close> returns.
\<close>

definition terminal :: "jsval \<Rightarrow> bool" where
  "terminal s \<longleftrightarrow> s = JStr ''Fulfilled'' \<or> s = JStr ''Failed'' \<or> s = JStr ''Expired''"

definition undecided :: "'v event list \<Rightarrow> bool" where
  "undecided evs \<longleftrightarrow> (\<forall>n s. terminal s \<longrightarrow> Log (BridgeStatus n s) \<notin> set evs)"

lemma undecided_simps [simp]:
  "undecided []"
  "undecided (e # evs) \<longleftrightarrow> (\<forall>n s. terminal s \<longrightarrow> e \<noteq> Log (BridgeStatus n s)) \<and> undecided evs"
  "undecided (xs @ ys) \<longleftrightarrow> undecided xs \<and> undecided ys"
  by (auto simp: undecided_def)

lemma quiet_undecided: "quiet evs \<Longrightarrow> undecided evs"
  by (simp add: quiet_def undecided_def)

definition polled :: "jsval \<Rightarrow> 'v event list \<Rightarrow> bool" where
  "polled r evs \<longleftrightarrow>
     undecided evs \<and> \<not> terminal r \<or>
     (\<exists>pre n. evs = pre @ [Log (BridgeStatus n r)] \<and> undecided pre \<and> terminal r)"

lemma polled_prepend: "undecided pre \<Longrightarrow> polled r evs \<Longrightarrow> polled r (pre @ evs)"
  unfolding polled_def
proof (elim disjE exE conjE)
  assume "undecided pre" "undecided evs" "\<not> terminal r"
  then show "undecided (pre @ evs) \<and> \<not> terminal r \<or>
    (\<exists>pre' n. pre @ evs = pre' @ [Log (BridgeStatus n r)] \<and> undecided pre' \<and> terminal r)"
    by simp
next
  fix p n
  assume "undecided pre" "evs = p @ [Log (BridgeStatus n r)]" "undecided p" "terminal r"
  then have "pre @ evs = (pre @ p) @ [Log (BridgeStatus n r)] \<and> undecided (pre @ p) \<and> terminal r"
    by simp
  then show "undecided (pre @ evs) \<and> \<not> terminal r \<or>
    (\<exists>pre' n. pre @ evs = pre' @ [Log (BridgeStatus n r)] \<and> undecided pre' \<and> terminal r)"
    by blast
qed

lemma pollForFulfillment_from_polled:
  "pollForFulfillment_from env orderId maxPolls st pollCount w = (r, w') \<Longrightarrow> \<not> terminal st \<Longrightarrow>
     \<exists>evs. trace w' = trace w @ evs \<and> polled r evs"
proof (induction env orderId maxPolls st pollCount w arbitrary: r w' rule: pollForFulfillment_from.induct)
  case (1 env orderId maxPolls st pollCount w)
  have nf: "st \<noteq> JStr ''Fulfilled''" using "1.prems"(2) by (auto simp: terminal_def)
  show ?case
  proof (cases "pollCount < maxPolls")
    case False
    with "1.prems" have "w' = w" "r = st" by (subst (asm) pollForFulfillment_from.simps, simp)+
    with "1.prems"(2) show ?thesis by (intro exI[of _ "[]"]) (simp add: polled_def)
  next
    case True
    obtain r1 w1 where h: "http ''status'' (bridgeOrderStatus env orderId) w = (r1, w1)"
      by (cases "http ''status'' (bridgeOrderStatus env orderId) w")
    have t1: "trace w1 = trace w @ [Http ''status'']" using http_trace[OF h] .
    have cond: "st \<noteq> JStr ''Fulfilled'' \<and> pollCount < maxPolls" using True nf by simp
    show ?thesis
    proof (cases r1)
      case (Inl err)
      let ?w2 = "emit (Sleep 10000 0) w1"
      from "1.prems" True h Inl nf
      have run: "pollForFulfillment_from env orderId maxPolls st (pollCount + 1) ?w2 = (r, w')"
        by (subst (asm) pollForFulfillment_from.simps) simp
      from "1.IH"(1)[OF cond h[symmetric] Inl run "1.prems"(2)] obtain evs where
        e: "trace w' = trace ?w2 @ evs" "polled r evs" by blast
      have "trace w' = trace w @ ([Http ''status'', Sleep 10000 0] @ evs)"
        using e(1) t1 by (simp add: emit_def)
      moreover have "polled r ([Http ''status'', Sleep 10000 0] @ evs)"
        using e(2) by (intro polled_prepend) simp_all
      ultimately show ?thesis by blast
    next
      case (Inr st')
      let ?w2 = "emit (Log (BridgeStatus (pollCount + 1) st')) w1"
      have t2: "trace ?w2 = trace w @ [Http ''status''] @ [Log (BridgeStatus (pollCount + 1) st')]"
        using t1 by (simp add: emit_def)
      show ?thesis
      proof (cases "terminal st'")
        case f: True
        with "1.prems" True h Inr nf have "w' = ?w2" "r = st'"
          by (subst (asm) pollForFulfillment_from.simps, auto simp: Let_def terminal_def)+
        moreover have "polled st' ([Http ''status''] @ [Log (BridgeStatus (pollCount + 1) st')])"
          unfolding polled_def using f
          by (intro disjI2 exI[of _ "[Http ''status'']"] exI[of _ "pollCount + 1"]) simp
        ultimately show ?thesis using t2 by blast
      next
        case False
        let ?w3 = "emit (Sleep 10000 0) ?w2"
        have n1: "st' \<noteq> JStr ''Fulfilled''" and n2: "\<not> (st' = JStr ''Failed'' \<or> st' = JStr ''Expired'')"
          using False by (auto simp: terminal_def)
        from "1.prems" True h Inr nf n1 n2
        have run: "pollForFulfillment_from env orderId maxPolls st' (pollCount + 1) ?w3 = (r, w')"
          by (subst (asm) pollForFulfillment_from.simps) (simp add: Let_def)
        from "1.IH"(2)[OF cond h[symmetric] Inr refl n1 n2 run False] obtain evs where
          e: "trace w' = trace ?w3 @ evs" "polled r evs"
          by blast
        let ?pre = "[Http ''status'', Log (BridgeStatus (pollCount + 1) st'), Sleep 10000 0]"
        have "trace w' = trace w @ (?pre @ evs)" using e(1) t2 by (simp add: emit_def)
        moreover have "polled r (?pre @ evs)"
          using e(2) False by (intro polled_prepend) auto
        ultimately show ?thesis by blast
      qed
    qed
  qed
qed

definition balance_verified :: "nat \<Rightarrow> 'v event list \<Rightarrow> bool" where
  "balance_verified required evs \<longleftrightarrow> (\<exists>b. required \<le> b \<and> Log (SolBalance b) \<in> set evs)"

lemma validateSolanaNetwork_trace:
  "validateSolanaNetwork env w = (r, w') \<Longrightarrow> \<exists>x. trace w' = trace w @ [Call GetVersion x]"
  by (auto simp: validateSolanaNetwork_def request_def split: prod.splits sum.splits bool.splits)

lemma verifySolBalance_trace:
  assumes "verifySolBalance env pk required w = (r, w')"
  shows "\<exists>evs. trace w' = trace w @ evs \<and> no_tx evs \<and> no_fulfilled evs \<and>
           (r = Inr True \<longrightarrow> balance_verified required evs)"
proof -
  obtain r1 w1 where rq: "request GetBalance (getBalance env pk) (emit (Sleep 5000 0) w) = (r1, w1)"
    by (cases "request GetBalance (getBalance env pk) (emit (Sleep 5000 0) w)")
  from request_cases[OF rq] obtain x where t1: "trace w1 = trace w @ [Sleep 5000 0, Call GetBalance x]"
    by (auto simp: emit_def)
  show ?thesis
  proof (cases r1)
    case (Inl err)
    with assms rq have "w' = w1" "r = Inl err" by (simp_all add: verifySolBalance_def)
    with t1 show ?thesis by (intro exI[of _ "[Sleep 5000 0, Call GetBalance x]"]) simp
  next
    case (Inr b)
    with assms rq have "w' = emit (Log (SolBalance b)) w1" "r = Inr (required \<le> b)"
      by (simp_all add: verifySolBalance_def)
    with t1 show ?thesis
      by (intro exI[of _ "[Sleep 5000 0, Call GetBalance x, Log (SolBalance b)]"])
         (auto simp: emit_def balance_verified_def)
  qed
qed

text \<open>
  What the \<open>try\<close> block adds to the trace: either nothing that builds or sends, and then it
  threw; or the log line 'Bridge complete' (line 3264), before which nothing is built or
  sent, a poll answered 'Fulfilled' and the balance read covered the fee.
\<close>

definition bridged :: "'v event list \<Rightarrow> bool" where
  "bridged evs \<longleftrightarrow>
     (\<exists>pre post. evs = pre @ Log BridgeComplete # post \<and> no_tx pre \<and>
        fulfilled_seen 60 pre \<and> balance_verified 1000000 pre)"

lemma bridged_extend: "bridged evs \<Longrightarrow> bridged (evs @ extra)"
  unfolding bridged_def by (metis append.assoc append_Cons)

lemma bridged_prepend: "bridged evs \<Longrightarrow> no_tx pre \<Longrightarrow> bridged (pre @ evs)"
proof -
  assume "bridged evs" "no_tx pre"
  then obtain p q where "evs = p @ Log BridgeComplete # q" "no_tx p" "fulfilled_seen 60 p"
    "balance_verified 1000000 p" unfolding bridged_def by blast
  then have "pre @ evs = (pre @ p) @ Log BridgeComplete # q" "no_tx (pre @ p)" "fulfilled_seen 60 (pre @ p)"
    "balance_verified 1000000 (pre @ p)"
    using \<open>no_tx pre\<close> by (auto simp: balance_verified_def)
  then show ?thesis unfolding bridged_def by blast
qed

lemma bridge_and_post_trace:
  assumes "bridge_and_post env c pk w = (r, w')"
  shows "\<exists>evs. trace w' = trace w @ evs \<and>
           (no_tx evs \<and> (\<exists>err. r = Inl err) \<or> bridged evs)"
proof -
  have failed: ?thesis if "w' = wk" "trace wk = trace w @ evs" "no_tx evs" "\<exists>err. r = Inl err" for wk evs
    using that by blast
  obtain r1 w1 where h1: "http ''create-tx'' (bridgeCreateTx env) w = (r1, w1)"
    by (cases "http ''create-tx'' (bridgeCreateTx env) w")
  have t1: "trace w1 = trace w @ [Http ''create-tx'']" using http_trace[OF h1] by simp
  show ?thesis
  proof (cases r1)
    case (Inl err)
    with assms h1 have "w' = w1" "r = Inl err" by (simp_all add: bridge_and_post_def)
    then show ?thesis using t1 by (intro failed[of w1 "[Http ''create-tx'']"]) auto
  next
    case r1: (Inr response)
    show ?thesis
    proof (cases "resp_ok response")
      case False
      with assms h1 r1 have "w' = w1" "\<exists>err. r = Inl err" by (auto simp: bridge_and_post_def)
      then show ?thesis using t1 by (intro failed[of w1 "[Http ''create-tx'']"]) auto
    next
      case ok: True
      obtain r2 w2 where h2: "evm ''sendTransaction'' (evmSendTransaction env (resp_body response)) w1 = (r2, w2)"
        by (cases "evm ''sendTransaction'' (evmSendTransaction env (resp_body response)) w1")
      have t2: "trace w2 = trace w @ [Http ''create-tx'', Evm ''sendTransaction'']"
        using evm_trace[OF h2] t1 by simp
      show ?thesis
      proof (cases r2)
        case (Inl err)
        with assms h1 r1 ok h2 have "w' = w2" "r = Inl err" by (simp_all add: bridge_and_post_def)
        then show ?thesis using t2 by (intro failed[of w2 "[Http ''create-tx'', Evm ''sendTransaction'']"]) auto
      next
        case r2: (Inr txHash)
        obtain r3 w3 where h3: "evm ''wait'' (evmWait env txHash) w2 = (r3, w3)"
          by (cases "evm ''wait'' (evmWait env txHash) w2")
        let ?e3 = "[Http ''create-tx'', Evm ''sendTransaction'', Evm ''wait'']"
        have t3: "trace w3 = trace w @ ?e3" using evm_trace[OF h3] t2 by simp
        show ?thesis
        proof (cases r3)
          case (Inl err)
          with assms h1 r1 ok h2 r2 h3 have "w' = w3" "r = Inl err" by (simp_all add: bridge_and_post_def)
          then show ?thesis using t3 by (intro failed[of w3 ?e3]) auto
        next
          case r3: (Inr u)
          obtain orderId w4 where h4: "pollForOrderId env txHash 24 w3 = (orderId, w4)"
            by (cases "pollForOrderId env txHash 24 w3")
          from pollForOrderId_from_trace[OF h4[unfolded pollForOrderId_def]] obtain e4 where
            e4: "trace w4 = trace w3 @ e4" "no_tx e4" by blast
          have t4: "trace w4 = trace w @ (?e3 @ e4)" "no_tx (?e3 @ e4)" using t3 e4 by simp_all
          show ?thesis
          proof (cases "truthy orderId")
            case False
            with assms h1 r1 ok h2 r2 h3 r3 h4 have "w' = w4" "\<exists>err. r = Inl err"
              by (auto simp: bridge_and_post_def)
            then show ?thesis using t4 by (intro failed[of w4 "?e3 @ e4"]) auto
          next
            case tr: True
            obtain st w5 where h5: "pollForFulfillment env orderId 60 w4 = (st, w5)"
              by (cases "pollForFulfillment env orderId 60 w4")
            have "JStr ''Created'' \<noteq> JStr ''Fulfilled''" by simp
            from pollForFulfillment_from_trace[OF h5[unfolded pollForFulfillment_def] this] obtain e5 where
              e5: "trace w5 = trace w4 @ e5" "no_tx e5"
                  "if st = JStr ''Fulfilled'' then fulfilled_seen 60 e5 else no_fulfilled e5" by blast
            have t5: "trace w5 = trace w @ (?e3 @ e4 @ e5)" "no_tx (?e3 @ e4 @ e5)" using t4 e5 by simp_all
            show ?thesis
            proof (cases "st = JStr ''Fulfilled''")
              case False
              with assms h1 r1 ok h2 r2 h3 r3 h4 tr h5 have "w' = w5" "\<exists>err. r = Inl err"
                by (auto simp: bridge_and_post_def)
              then show ?thesis using t5 by (intro failed[of w5 "?e3 @ e4 @ e5"]) auto
            next
              case ff: True
              with e5(3) have seen: "fulfilled_seen 60 (?e3 @ e4 @ e5)"
                by (auto simp: fulfilled_seen_def)
              obtain r6 w6 where h6: "validateSolanaNetwork env w5 = (r6, w6)"
                by (cases "validateSolanaNetwork env w5")
              from validateSolanaNetwork_trace[OF h6] obtain x6 where
                e6: "trace w6 = trace w5 @ [Call GetVersion x6]" by blast
              let ?e6 = "?e3 @ e4 @ e5 @ [Call GetVersion x6]"
              have t6: "trace w6 = trace w @ ?e6" "no_tx ?e6" using t5 e6 by simp_all
              show ?thesis
              proof (cases r6)
                case (Inl err)
                with assms h1 r1 ok h2 r2 h3 r3 h4 tr h5 ff h6 have "w' = w6" "r = Inl err"
                  by (simp_all add: bridge_and_post_def)
                then show ?thesis using t6 by (intro failed[of w6 ?e6]) auto
              next
                case r6: (Inr u6)
                obtain r7 w7 where h7: "verifySolBalance env pk 1000000 w6 = (r7, w7)"
                  by (cases "verifySolBalance env pk 1000000 w6")
                from verifySolBalance_trace[OF h7] obtain e7 where
                  e7: "trace w7 = trace w6 @ e7" "no_tx e7" "r7 = Inr True \<longrightarrow> balance_verified 1000000 e7"
                  by blast
                have t7: "trace w7 = trace w @ (?e6 @ e7)" "no_tx (?e6 @ e7)" using t6 e7 by simp_all
                show ?thesis
                proof (cases "r7 = Inr True")
                  case False
                  with assms h1 r1 ok h2 r2 h3 r3 h4 tr h5 ff h6 r6 h7 have "w' = w7" "\<exists>err. r = Inl err"
                    by (auto simp: bridge_and_post_def split: sum.splits bool.splits)
                  then show ?thesis using t7 by (intro failed[of w7 "?e6 @ e7"]) auto
                next
                  case r7: True
                  let ?w7 = "emit (Log BridgeComplete) w7"
                  let ?content = "''['' @ bridgePostCategory c @ ''] '' @ bridgePostContent c"
                  obtain r8 w8 where h8: "createAndSendPost env ?content ?w7 = (r8, w8)"
                    by (cases "createAndSendPost env ?content ?w7")
                  from grows_extends[OF createAndSendPost_grows[OF h8]] obtain e8 where
                    e8: "trace w8 = trace w @ ((?e6 @ e7) @ Log BridgeComplete # e8)"
                    using t7 by (auto simp: emit_def)
                  have b8: "bridged ((?e6 @ e7) @ Log BridgeComplete # e8)"
                    unfolding bridged_def
                    apply (rule exI[of _ "?e6 @ e7"], rule exI[of _ e8])
                    using t7(2) seen e7(3) r7 by (auto simp: balance_verified_def fulfilled_seen_def)
                  obtain r9 w9 where h9: "refreshForumData_from env 1 w8 = (r9, w9)"
                    by (cases "refreshForumData_from env 1 w8")
                  from grows_extends[OF refreshForumData_from_grows[OF h9]] obtain e9 where e9: "trace w9 = trace w8 @ e9"
                    by blast
                  let ?resets = "map SetForm [''showBridge'', ''bridgePostContent'', ''bridgePostCategory'',
                      ''selectedInput''] @ [SetError None]"
                  have "w' = w8 \<or> w' = w9 \<or> w' = w9\<lparr>trace := trace w9 @ ?resets\<rparr>"
                    using assms h1 r1 ok h2 r2 h3 r3 h4 tr h5 ff h6 r6 h7 r7 h8 h9
                    by (auto simp: bridge_and_post_def split: completion.splits sum.splits)
                  then have "\<exists>extra. trace w' = trace w @ (((?e6 @ e7) @ Log BridgeComplete # e8) @ extra)"
                  proof (elim disjE)
                    assume "w' = w8" then show ?thesis using e8 by (intro exI[of _ "[]"]) simp
                  next
                    assume "w' = w9" then show ?thesis using e8 e9 by (intro exI[of _ e9]) simp
                  next
                    assume "w' = w9\<lparr>trace := trace w9 @ ?resets\<rparr>"
                    then show ?thesis using e8 e9 by (intro exI[of _ "e9 @ ?resets"]) simp
                  qed
                  then show ?thesis using bridged_extend[OF b8] by blast
                qed
              qed
            qed
          qed
        qed
      qed
    qed
  qed
qed

lemma bridged_not_no_fulfilled: "bridged evs \<Longrightarrow> \<not> no_fulfilled evs"
  by (auto simp: bridged_def fulfilled_seen_def no_fulfilled_def)

text \<open>No poll reported the order as failed or expired.\<close>

definition not_given_up :: "'v event list \<Rightarrow> bool" where
  "not_given_up evs \<longleftrightarrow>
     (\<forall>n. Log (BridgeStatus n (JStr ''Failed'')) \<notin> set evs \<and>
          Log (BridgeStatus n (JStr ''Expired'')) \<notin> set evs)"

lemma not_given_up_append [simp]:
  "not_given_up (xs @ ys) \<longleftrightarrow> not_given_up xs \<and> not_given_up ys"
  by (auto simp: not_given_up_def)

lemma undecided_not_given_up: "undecided evs \<Longrightarrow> not_given_up evs"
  by (auto simp: undecided_def not_given_up_def terminal_def)

lemma quiet_not_given_up: "quiet evs \<Longrightarrow> not_given_up evs"
  by (simp add: quiet_def not_given_up_def)

lemma polled_fulfilled: "polled (JStr ''Fulfilled'') evs \<Longrightarrow> not_given_up evs"
  by (auto simp: polled_def not_given_up_def terminal_def undecided_def)

lemma grows_not_given_up:
  "grows w w' \<Longrightarrow> \<exists>evs. trace w' = trace w @ evs \<and> not_given_up evs"
  unfolding grows_def using quiet_not_given_up by blast

lemma validateSolanaNetwork_grows: "validateSolanaNetwork env w = (r, w') \<Longrightarrow> grows w w'"
  using validateSolanaNetwork_trace unfolding grows_def by fastforce

lemma verifySolBalance_grows: "verifySolBalance env pk required w = (r, w') \<Longrightarrow> grows w w'"
  by (auto simp: verifySolBalance_def request_def emit_def grows_def
      split: prod.splits sum.splits)

text \<open>
  What the \<open>try\<close> block adds to the trace, as to the statuses polled: either no poll reported
  'Failed' or 'Expired'; or the last event is such a report, the first one, and the block
  threw 'Bridge failed' or 'Bridge expired'.
\<close>

definition gave_up :: "(error + unit) \<Rightarrow> 'v event list \<Rightarrow> bool" where
  "gave_up r evs \<longleftrightarrow>
     (\<exists>pre n s. (s = ''Failed'' \<or> s = ''Expired'') \<and> evs = pre @ [Log (BridgeStatus n (JStr s))] \<and>
        undecided pre \<and> r = Inl (bridge_status_error (JStr s)))"

lemma bridge_and_post_polled:
  assumes "bridge_and_post env c pk w = (r, w')"
  shows "\<exists>evs. trace w' = trace w @ evs \<and> (not_given_up evs \<or> gave_up r evs)"
proof -
  have calm: ?thesis if "grows w w'"
    using grows_not_given_up[OF that] by blast
  obtain r1 w1 where h1: "http ''create-tx'' (bridgeCreateTx env) w = (r1, w1)"
    by (cases "http ''create-tx'' (bridgeCreateTx env) w")
  have g1: "grows w w1" using http_trace[OF h1] unfolding grows_def by simp
  show ?thesis
  proof (cases r1)
    case (Inl err)
    with assms h1 have "w' = w1" by (simp add: bridge_and_post_def)
    with g1 show ?thesis by (intro calm) simp
  next
    case r1: (Inr response)
    show ?thesis
    proof (cases "resp_ok response")
      case False
      with assms h1 r1 have "w' = w1" by (auto simp: bridge_and_post_def)
      with g1 show ?thesis by (intro calm) simp
    next
      case ok: True
      obtain r2 w2 where h2: "evm ''sendTransaction'' (evmSendTransaction env (resp_body response)) w1 = (r2, w2)"
        by (cases "evm ''sendTransaction'' (evmSendTransaction env (resp_body response)) w1")
      have "grows w1 w2" using evm_trace[OF h2] unfolding grows_def by simp
      with g1 have g2: "grows w w2" by (rule grows_trans)
      show ?thesis
      proof (cases r2)
        case (Inl err)
        with assms h1 r1 ok h2 have "w' = w2" by (simp add: bridge_and_post_def)
        with g2 show ?thesis by (intro calm) simp
      next
        case r2: (Inr txHash)
        obtain r3 w3 where h3: "evm ''wait'' (evmWait env txHash) w2 = (r3, w3)"
          by (cases "evm ''wait'' (evmWait env txHash) w2")
        have "grows w2 w3" using evm_trace[OF h3] unfolding grows_def by simp
        with g2 have g3: "grows w w3" by (rule grows_trans)
        show ?thesis
        proof (cases r3)
          case (Inl err)
          with assms h1 r1 ok h2 r2 h3 have "w' = w3" by (simp add: bridge_and_post_def)
          with g3 show ?thesis by (intro calm) simp
        next
          case r3: (Inr u)
          obtain orderId w4 where h4: "pollForOrderId env txHash 24 w3 = (orderId, w4)"
            by (cases "pollForOrderId env txHash 24 w3")
          have g4: "grows w w4"
            using g3 pollForOrderId_from_quiet[OF h4[unfolded pollForOrderId_def]] by (rule grows_trans)
          show ?thesis
          proof (cases "truthy orderId")
            case False
            with assms h1 r1 ok h2 r2 h3 r3 h4 have "w' = w4" by (auto simp: bridge_and_post_def)
            with g4 show ?thesis by (intro calm) simp
          next
            case tr: True
            obtain st w5 where h5: "pollForFulfillment env orderId 60 w4 = (st, w5)"
              by (cases "pollForFulfillment env orderId 60 w4")
            have "\<not> terminal (JStr ''Created'')" by (simp add: terminal_def)
            from pollForFulfillment_from_polled[OF h5[unfolded pollForFulfillment_def] this] obtain e5 where
              e5: "trace w5 = trace w4 @ e5" "polled st e5" by blast
            from g4 obtain e4 where e4: "trace w4 = trace w @ e4" "quiet e4" unfolding grows_def by blast
            have t5: "trace w5 = trace w @ (e4 @ e5)" using e4(1) e5(1) by simp
            show ?thesis
            proof (cases "st = JStr ''Fulfilled''")
              case False
              with assms h1 r1 ok h2 r2 h3 r3 h4 tr h5 have out: "w' = w5" "r = Inl (bridge_status_error st)"
                by (auto simp: bridge_and_post_def)
              from e5(2) show ?thesis unfolding polled_def
              proof (elim disjE exE conjE)
                assume "undecided e5"
                then have "not_given_up (e4 @ e5)"
                  using e4(2) by (simp add: quiet_not_given_up undecided_not_given_up)
                with t5 out(1) show ?thesis by blast
              next
                fix pre n
                assume p: "e5 = pre @ [Log (BridgeStatus n st)]" "undecided pre" "terminal st"
                from p(3) False obtain s where s: "st = JStr s" "s = ''Failed'' \<or> s = ''Expired''"
                  by (auto simp: terminal_def)
                have "e4 @ e5 = (e4 @ pre) @ [Log (BridgeStatus n (JStr s))]" using p(1) s(1) by simp
                moreover have "undecided (e4 @ pre)"
                  using e4(2) p(2) by (simp add: quiet_undecided)
                ultimately have "gave_up r (e4 @ e5)"
                  unfolding gave_up_def using s out(2) by blast
                with t5 out(1) show ?thesis by blast
              qed
            next
              case ff: True
              have n5: "not_given_up (e4 @ e5)"
                using e4(2) e5(2) ff by (simp add: quiet_not_given_up polled_fulfilled)
              have later: ?thesis if "grows w5 w'"
              proof -
                from that obtain l where "trace w' = trace w5 @ l" "quiet l" unfolding grows_def by blast
                then have "trace w' = trace w @ ((e4 @ e5) @ l)" "not_given_up ((e4 @ e5) @ l)"
                  using t5 n5 by (simp_all add: quiet_not_given_up)
                then show ?thesis by blast
              qed
              obtain r6 w6 where h6: "validateSolanaNetwork env w5 = (r6, w6)"
                by (cases "validateSolanaNetwork env w5")
              note g6 = validateSolanaNetwork_grows[OF h6]
              obtain r7 w7 where h7: "verifySolBalance env pk 1000000 w6 = (r7, w7)"
                by (cases "verifySolBalance env pk 1000000 w6")
              have g7: "grows w5 w7" using g6 verifySolBalance_grows[OF h7] by (rule grows_trans)
              let ?w7 = "emit (Log BridgeComplete) w7"
              let ?content = "''['' @ bridgePostCategory c @ ''] '' @ bridgePostContent c"
              obtain r8 w8 where h8: "createAndSendPost env ?content ?w7 = (r8, w8)"
                by (cases "createAndSendPost env ?content ?w7")
              have "grows w5 ?w7" using g7 by (rule grows_then_emit) simp
              then have g8: "grows w5 w8" using createAndSendPost_grows[OF h8] by (rule grows_trans)
              obtain r9 w9 where h9: "refreshForumData_from env 1 w8 = (r9, w9)"
                by (cases "refreshForumData_from env 1 w8")
              have g9: "grows w5 w9" using g8 refreshForumData_from_grows[OF h9] by (rule grows_trans)
              let ?resets = "map SetForm [''showBridge'', ''bridgePostContent'', ''bridgePostCategory'',
                  ''selectedInput''] @ [SetError None]"
              have g10: "grows w5 (w9\<lparr>trace := trace w9 @ ?resets\<rparr>)"
              proof -
                from g9 obtain l where "trace w9 = trace w5 @ l" "quiet l" unfolding grows_def by blast
                then have "trace (w9\<lparr>trace := trace w9 @ ?resets\<rparr>) = trace w5 @ (l @ ?resets)"
                  "quiet (l @ ?resets)" by simp_all
                then show ?thesis unfolding grows_def by blast
              qed
              have "w' = w6 \<or> w' = w7 \<or> w' = w8 \<or> w' = w9 \<or> w' = w9\<lparr>trace := trace w9 @ ?resets\<rparr>"
                using assms h1 r1 ok h2 r2 h3 r3 h4 tr h5 ff h6 h7 h8 h9
                by (auto simp: bridge_and_post_def split: completion.splits sum.splits bool.splits)
              then have "grows w5 w'" using g6 g7 g8 g9 g10 by auto
              then show ?thesis by (rule later)
            qed
          qed
        qed
      qed
    qed
  qed
qed

lemma bridged_not_gave_up: "bridged evs \<Longrightarrow> \<not> gave_up r evs"
proof
  assume b: "bridged evs" and g: "gave_up r evs"
  from b obtain p q n where p: "evs = p @ Log BridgeComplete # q"
    "Log (BridgeStatus n (JStr ''Fulfilled'')) \<in> set p"
    unfolding bridged_def fulfilled_seen_def by blast
  from g obtain pre m s where s: "s = ''Failed'' \<or> s = ''Expired''"
    "evs = pre @ [Log (BridgeStatus m (JStr s))]" "undecided pre"
    unfolding gave_up_def by blast
  from p have "Log (BridgeStatus n (JStr ''Fulfilled'')) \<in> set evs" by simp
  with s(2) have "Log (BridgeStatus n (JStr ''Fulfilled'')) \<in> set pre \<or> s = ''Fulfilled''" by auto
  with s(1,3) show False by (auto simp: undecided_def terminal_def)
qed

lemma gave_up_last:
  assumes "gave_up r evs" "Log (BridgeStatus n (JStr s)) \<in> set evs" "s = ''Failed'' \<or> s = ''Expired''"
  shows "\<exists>pre. evs = pre @ [Log (BridgeStatus n (JStr s))] \<and> r = Inl (bridge_status_error (JStr s))"
proof -
  from assms(1) obtain pre m s' where a: "s' = ''Failed'' \<or> s' = ''Expired''"
    "evs = pre @ [Log (BridgeStatus m (JStr s'))]" "undecided pre" "r = Inl (bridge_status_error (JStr s'))"
    unfolding gave_up_def by blast
  have "Log (BridgeStatus n (JStr s)) \<notin> set pre"
    using a(3) assms(3) by (auto simp: undecided_def terminal_def)
  with assms(2) a(2) have "n = m" "s = s'" by auto
  with a(2,4) show ?thesis by blast
qed

lemma not_given_up_absent:
  "not_given_up evs \<Longrightarrow> s = ''Failed'' \<or> s = ''Expired'' \<Longrightarrow> Log (BridgeStatus n (JStr s)) \<notin> set evs"
  by (auto simp: not_given_up_def)

text \<open>
  C6. Whatever the bridge, the wallets and the node answer, the events of
  \<open>handleBridgeAndPost\<close> are of one of two kinds. Either no instruction is built and no
  transaction is sent, and an error is shown (the flow was refused or threw). Or the log
  line 'Bridge complete' occurs, and before it nothing is built or sent, one of the at most
  60 status polls answered exactly 'Fulfilled', and the balance read was at least the post
  fee of 1000000 lamports: the post is created and sent only after that. If no poll answers
  'Fulfilled', nothing is built or sent and an error is shown. And if a poll reports the
  order as 'Failed' or 'Expired', that poll is the last thing the flow does but to show
  the error 'Failed: Bridge failed' or 'Failed: Bridge expired' and to end the loading
  state: nothing is built or sent in the whole run.
\<close>

theorem post_only_after_fulfilment:
  "\<exists>evs. trace (handleBridgeAndPost env c w) = trace w @ evs \<and>
     (no_tx evs \<and> (\<exists>msg. SetError (Some msg) \<in> set evs) \<or>
      (\<exists>pre post. evs = pre @ Log BridgeComplete # post \<and> no_tx pre \<and>
         fulfilled_seen 60 pre \<and> balance_verified 1000000 pre)) \<and>
     (no_fulfilled evs \<longrightarrow> no_tx evs \<and> (\<exists>msg. SetError (Some msg) \<in> set evs)) \<and>
     (\<forall>n s. (s = ''Failed'' \<or> s = ''Expired'') \<longrightarrow> Log (BridgeStatus n (JStr s)) \<in> set evs \<longrightarrow>
        no_tx evs \<and>
        (\<exists>pre. evs = pre @ [Log (BridgeStatus n (JStr s)),
                             SetError (Some (''Failed: Bridge '' @ map to_lower_char s)),
                             SetLoading False]))"
proof -
  have main: "\<exists>evs. trace (handleBridgeAndPost env c w) = trace w @ evs \<and>
     (no_tx evs \<and> (\<exists>msg. SetError (Some msg) \<in> set evs) \<or> bridged evs) \<and>
     (\<forall>n s. (s = ''Failed'' \<or> s = ''Expired'') \<longrightarrow> Log (BridgeStatus n (JStr s)) \<in> set evs \<longrightarrow>
        no_tx evs \<and>
        (\<exists>pre. evs = pre @ [Log (BridgeStatus n (JStr s)),
                             SetError (Some (''Failed: Bridge '' @ map to_lower_char s)),
                             SetLoading False]))"
  proof (cases "publicKey c")
    case None
    then obtain msg where "handleBridgeAndPost env c w = emit (SetError (Some msg)) w"
      by (auto simp: handleBridgeAndPost_def)
    then show ?thesis by (intro exI[of _ "[SetError (Some msg)]"]) (auto simp: emit_def)
  next
    case (Some pk)
    show ?thesis
    proof (cases "\<not> evmProvider c \<or> evmAddress c = [] \<or> \<not> estimationInfo c \<or> blank (bridgePostContent c)")
      case True
      with Some obtain msg where "handleBridgeAndPost env c w = emit (SetError (Some msg)) w"
        by (auto simp: handleBridgeAndPost_def)
      then show ?thesis by (intro exI[of _ "[SetError (Some msg)]"]) (auto simp: emit_def)
    next
      case False
      let ?w1 = "emit (SetError None) (emit (SetLoading True) w)"
      obtain r w2 where bp: "bridge_and_post env c pk ?w1 = (r, w2)"
        by (cases "bridge_and_post env c pk ?w1")
      from bridge_and_post_trace[OF bp] obtain bevs where
        b: "trace w2 = trace ?w1 @ bevs"
           "no_tx bevs \<and> (\<exists>err. r = Inl err) \<or> bridged bevs"
        by blast
      from bridge_and_post_polled[OF bp] obtain bevs' where
        "trace w2 = trace ?w1 @ bevs'" "not_given_up bevs' \<or> gave_up r bevs'" by blast
      with b(1) have p: "not_given_up bevs \<or> gave_up r bevs" by simp
      have t2: "trace w2 = trace w @ ([SetLoading True, SetError None] @ bevs)"
        using b(1) by (simp add: emit_def)
      show ?thesis
      proof (cases r)
        case (Inl err)
        let ?evs = "([SetLoading True, SetError None] @ bevs) @
            [SetError (Some (''Failed: '' @ message err)), SetLoading False]"
        have 1: "trace (handleBridgeAndPost env c w) = trace w @ ?evs"
          using Some False bp Inl t2 by (simp add: handleBridgeAndPost_def emit_def)
        have 2: "no_tx ?evs \<and> (\<exists>msg. SetError (Some msg) \<in> set ?evs) \<or> bridged ?evs"
          using b(2) bridged_extend[OF bridged_prepend[of bevs "[SetLoading True, SetError None]"]]
          by auto
        have 3: "no_tx ?evs \<and>
            (\<exists>pre. ?evs = pre @ [Log (BridgeStatus n (JStr s)),
                             SetError (Some (''Failed: Bridge '' @ map to_lower_char s)),
                             SetLoading False])"
          if s: "s = ''Failed'' \<or> s = ''Expired''" and m: "Log (BridgeStatus n (JStr s)) \<in> set ?evs"
          for n s
        proof -
          from m have mb: "Log (BridgeStatus n (JStr s)) \<in> set bevs" by simp
          with p s have g: "gave_up r bevs" using not_given_up_absent by blast
          from gave_up_last[OF g mb s] obtain pre where
            l: "bevs = pre @ [Log (BridgeStatus n (JStr s))]" "r = Inl (bridge_status_error (JStr s))"
            by blast
          from l(2) Inl have "message err = ''Bridge '' @ map to_lower_char s"
            by (simp add: bridge_status_error_def)
          with l(1) have "?evs = ([SetLoading True, SetError None] @ pre) @
              [Log (BridgeStatus n (JStr s)), SetError (Some (''Failed: Bridge '' @ map to_lower_char s)),
               SetLoading False]"
            by simp
          moreover have "\<not> bridged bevs" using bridged_not_gave_up[of bevs r] g by blast
          then have "no_tx ?evs" using b(2) by auto
          ultimately show ?thesis by blast
        qed
        from 1 2 3 show ?thesis by blast
      next
        case (Inr u)
        let ?evs = "([SetLoading True, SetError None] @ bevs) @ [SetLoading False]"
        have 1: "trace (handleBridgeAndPost env c w) = trace w @ ?evs"
          using Some False bp Inr t2 by (simp add: handleBridgeAndPost_def emit_def)
        have 2: "bridged ?evs"
          using b(2) Inr bridged_extend[OF bridged_prepend[of bevs "[SetLoading True, SetError None]"]]
          by auto
        have "\<not> gave_up r bevs" using Inr by (simp add: gave_up_def)
        with p have "not_given_up bevs" by simp
        then have 3: "Log (BridgeStatus n (JStr s)) \<notin> set ?evs" if "s = ''Failed'' \<or> s = ''Expired''" for n s
          using not_given_up_absent[OF _ that] by simp
        from 1 2 3 show ?thesis by blast
      qed
    qed
  qed
  then obtain evs where e: "trace (handleBridgeAndPost env c w) = trace w @ evs"
    "no_tx evs \<and> (\<exists>msg. SetError (Some msg) \<in> set evs) \<or> bridged evs"
    "\<forall>n s. (s = ''Failed'' \<or> s = ''Expired'') \<longrightarrow> Log (BridgeStatus n (JStr s)) \<in> set evs \<longrightarrow>
        no_tx evs \<and>
        (\<exists>pre. evs = pre @ [Log (BridgeStatus n (JStr s)),
                             SetError (Some (''Failed: Bridge '' @ map to_lower_char s)),
                             SetLoading False])"
    by blast
  have "no_fulfilled evs \<longrightarrow> no_tx evs \<and> (\<exists>msg. SetError (Some msg) \<in> set evs)"
    using e(2) bridged_not_no_fulfilled by blast
  with e show ?thesis unfolding bridged_def by blast
qed

text \<open>A visitor who has connected both wallets and estimated the bridge, on a bridge that
  reports the order as created and then as failed, and on one that reports it as expired.\<close>

definition bridger :: component where
  "bridger =
     \<lparr>publicKey = Some ''9xQeWvG816bUx9EPjHmaT23yvVM2ZWbrrpZb9PusVFin'',
      forumPda = Some ''forum'',
      newPostContent = [],
      newPostCategory = ''General Chatting'',
      newReplyContent = (\<lambda>p. None),
      reportReason = [],
      posts = [],
      replies = [],
      useSolcial = False,
      solcialBalance = 0,
      evmProvider = True,
      evmAddress = ''0xabc'',
      estimationInfo = True,
      bridgePostContent = ''hello'',
      bridgePostCategory = ''General Chatting''\<rparr>"

definition node_bridge_failed :: "(nat, unit) env" where
  "node_bridge_failed = node_ok\<lparr>bridgeOrderStatus :=
     (\<lambda>i x. (Inr (JStr (if x = 0 then ''Created'' else ''Failed'')), x + 1))\<rparr>"

definition bridge_failed_events :: "unit event list" where
  "bridge_failed_events =
     [SetLoading True, SetError None, Http ''create-tx'', Evm ''sendTransaction'', Evm ''wait'',
      Http ''order-id'', Http ''status'', Log (BridgeStatus 1 (JStr ''Created'')), Sleep 10000 0,
      Http ''status'', Log (BridgeStatus 2 (JStr ''Failed'')),
      SetError (Some ''Failed: Bridge failed''), SetLoading False]"

definition node_bridge_expired :: "(nat, unit) env" where
  "node_bridge_expired = node_ok\<lparr>bridgeOrderStatus := (\<lambda>i x. (Inr (JStr ''Expired''), x))\<rparr>"

definition bridge_expired_events :: "unit event list" where
  "bridge_expired_events =
     [SetLoading True, SetError None, Http ''create-tx'', Evm ''sendTransaction'', Evm ''wait'',
      Http ''order-id'', Http ''status'', Log (BridgeStatus 1 (JStr ''Expired'')),
      SetError (Some ''Failed: Bridge expired''), SetLoading False]"

lemma bridge_failed_run:
  "trace (handleBridgeAndPost node_bridge_failed bridger w0) = trace w0 @ bridge_failed_events"
  by (simp add: bridge_simps eval_simps node_bridge_failed_def node_ok_def bridger_def w0_def
      bridge_failed_events_def)

lemma bridge_expired_run:
  "trace (handleBridgeAndPost node_bridge_expired bridger w0) = trace w0 @ bridge_expired_events"
  by (simp add: bridge_simps eval_simps node_bridge_expired_def node_ok_def bridger_def w0_def
      bridge_expired_events_def)

theorem post_only_after_fulfilment_witness:
  "trace (handleBridgeAndPost node_bridge_failed bridger w0) = trace w0 @ bridge_failed_events \<and>
   Log (BridgeStatus 2 (JStr ''Failed'')) \<in> set bridge_failed_events \<and>
   no_fulfilled bridge_failed_events \<and> no_tx bridge_failed_events \<and>
   (\<exists>msg. SetError (Some msg) \<in> set bridge_failed_events) \<and>
   (\<exists>pre. bridge_failed_events =
      pre @ [Log (BridgeStatus 2 (JStr ''Failed'')), SetError (Some ''Failed: Bridge failed''),
             SetLoading False]) \<and>
   trace (handleBridgeAndPost node_bridge_expired bridger w0) = trace w0 @ bridge_expired_events \<and>
   Log (BridgeStatus 1 (JStr ''Expired'')) \<in> set bridge_expired_events \<and>
   no_tx bridge_expired_events \<and>
   (\<exists>pre. bridge_expired_events =
      pre @ [Log (BridgeStatus 1 (JStr ''Expired'')), SetError (Some ''Failed: Bridge expired''),
             SetLoading False])"
proof -
  have lower: "map to_lower_char ''Failed'' = ''failed''" "map to_lower_char ''Expired'' = ''expired''"
    by (simp_all add: to_lower_char_def)
  from post_only_after_fulfilment[of node_bridge_failed bridger w0] obtain evs where
    e: "trace (handleBridgeAndPost node_bridge_failed bridger w0) = trace w0 @ evs"
       "no_fulfilled evs \<longrightarrow> no_tx evs \<and> (\<exists>msg. SetError (Some msg) \<in> set evs)"
       "\<forall>n s. (s = ''Failed'' \<or> s = ''Expired'') \<longrightarrow> Log (BridgeStatus n (JStr s)) \<in> set evs \<longrightarrow>
        no_tx evs \<and>
        (\<exists>pre. evs = pre @ [Log (BridgeStatus n (JStr s)),
                             SetError (Some (''Failed: Bridge '' @ map to_lower_char s)),
                             SetLoading False])"
    by blast
  from e(1) bridge_failed_run have evs: "evs = bridge_failed_events" by simp
  have f1: "no_fulfilled bridge_failed_events" by (simp add: bridge_failed_events_def)
  have f2: "Log (BridgeStatus 2 (JStr ''Failed'')) \<in> set bridge_failed_events"
    by (simp add: bridge_failed_events_def)
  from e(2) evs f1 have f3: "no_tx bridge_failed_events"
    "\<exists>msg. SetError (Some msg) \<in> set bridge_failed_events" by simp_all
  from e(3)[rule_format, of "''Failed''" 2] evs f2 lower(1) have f4:
    "\<exists>pre. bridge_failed_events =
      pre @ [Log (BridgeStatus 2 (JStr ''Failed'')), SetError (Some ''Failed: Bridge failed''),
             SetLoading False]"
    by simp
  from post_only_after_fulfilment[of node_bridge_expired bridger w0] obtain evs' where
    x: "trace (handleBridgeAndPost node_bridge_expired bridger w0) = trace w0 @ evs'"
       "\<forall>n s. (s = ''Failed'' \<or> s = ''Expired'') \<longrightarrow> Log (BridgeStatus n (JStr s)) \<in> set evs' \<longrightarrow>
        no_tx evs' \<and>
        (\<exists>pre. evs' = pre @ [Log (BridgeStatus n (JStr s)),
                             SetError (Some (''Failed: Bridge '' @ map to_lower_char s)),
                             SetLoading False])"
    by blast
  from x(1) bridge_expired_run have evs': "evs' = bridge_expired_events" by simp
  have x2: "Log (BridgeStatus 1 (JStr ''Expired'')) \<in> set bridge_expired_events"
    by (simp add: bridge_expired_events_def)
  from x(2)[rule_format, of "''Expired''" 1] evs' x2 lower(2) have x3:
    "no_tx bridge_expired_events"
    "\<exists>pre. bridge_expired_events =
      pre @ [Log (BridgeStatus 1 (JStr ''Expired'')), SetError (Some ''Failed: Bridge expired''),
             SetLoading False]"
    by simp_all
  show ?thesis using bridge_failed_run f1 f2 f3 f4 bridge_expired_run x2 x3 by (intro conjI)
qed

text \<open>When the bridge fulfils the order and the balance covers the fee, the post is built
  and sent after 'Bridge complete'.\<close>

lemma bridge_fulfilled_example:
  "trace (handleBridgeAndPost node_ok bridger w0) =
     [SetLoading True, SetError None, Http ''create-tx'', Evm ''sendTransaction'', Evm ''wait'',
      Http ''order-id'', Http ''status'', Log (BridgeStatus 1 (JStr ''Fulfilled'')),
      Call GetVersion None, Sleep 5000 0, Call GetBalance None, Log (SolBalance 5000000000),
      Log BridgeComplete,
      Call (Fetch Forum) None, Call GetAccountInfo None, Build (CreatePost ''[General Chatting] hello''),
      Call GetLatestBlockhash None, Call SimulateTransaction None, Log SimulationSucceeded,
      Call SendAndConfirm None, Log (TransactionSent (JStr ''sig'')), Call GetTransaction None,
      Call (Fetch Forum) None, SetAccounts Forum (Some ()), Call (Fetch Post) None, SetAccounts Post (Some ()),
      SetForm ''showBridge'', SetForm ''bridgePostContent'', SetForm ''bridgePostCategory'',
      SetForm ''selectedInput'', SetError None, SetLoading False]"
  by (simp add: bridge_simps eval_simps node_ok_def bridger_def w0_def POST_FEE_RECIPIENT_def)

section \<open>The actions when nothing is refused\<close>

text \<open>
  The refusals above are not all the actions do: with a moderator's wallet \<open>deletePost\<close>
  builds its instruction and sends it, and a post within the limit is built and sent.
\<close>

lemmas action_simps = deletePost_def closeForum_def closeForum_tx_def createPost_def createPost_tx_def
  submit_def then_set_def refresh_simps blank_def is_space_def ADMIN_PUBLIC_KEY_def
  MODERATOR_PUBLIC_KEYS_def POST_FEE_RECIPIENT_def

lemma deletePost_by_moderator_example:
  "trace (deletePost node_ok moderator w0) =
     [SetLoading True, SetError None, Build DeletePost,
      Call GetLatestBlockhash None, Call SimulateTransaction None, Log SimulationSucceeded,
      Call SendAndConfirm None, Log (TransactionSent (JStr ''sig'')), Call GetTransaction None,
      Log (RefreshingData 1),
      Call (Fetch Forum) None, SetAccounts Forum (Some ()), Call (Fetch Post) None, SetAccounts Post (Some ()),
      Call (Fetch Reply) None, SetAccounts Reply (Some ()),
      Call (Fetch PostReport) None, SetAccounts PostReport (Some ()),
      Call (Fetch ReplyReport) None, SetAccounts ReplyReport (Some ()),
      SetLoading False]"
  by (simp add: action_simps eval_simps node_ok_def moderator_def overlong_def w0_def)

definition author :: component where
  "author = overlong\<lparr>newPostContent := ''hello''\<rparr>"

lemma createPost_example:
  "trace (createPost node_ok author w0) =
     [SetLoading True, SetError None, Call (Fetch Forum) None, Call GetAccountInfo None, Call GetBalance None,
      Build (CreatePost ''[General Chatting] hello''),
      Call GetLatestBlockhash None, Call SimulateTransaction None, Log SimulationSucceeded,
      Call SendAndConfirm None, Log (TransactionSent (JStr ''sig'')), Call GetTransaction None,
      SetForm ''newPostContent'', SetForm ''showCreatePost'', SetForm ''newPostCategory'',
      Log (RefreshingData 1),
      Call (Fetch Forum) None, SetAccounts Forum (Some ()), Call (Fetch Post) None, SetAccounts Post (Some ()),
      Call (Fetch Reply) None, SetAccounts Reply (Some ()),
      Call (Fetch PostReport) None, SetAccounts PostReport (Some ()),
      Call (Fetch ReplyReport) None, SetAccounts ReplyReport (Some ()),
      SetLoading False]"
  by (simp add: action_simps eval_simps node_ok_def author_def overlong_def w0_def)

text \<open>
  The categorized content starts with a bracket, so it is never blank: the blank check of
  \<open>createPost\<close> (line 2291) cannot fire, and a post of spaces only is built and sent.
\<close>

lemma categorized_never_blank: "\<not> blank (''['' @ category @ ''] '' @ content)"
  by (simp add: blank_def is_space_def)

lemma createPost_spaces_example:
  "Build (CreatePost ''[General Chatting]    '') \<in>
     set (trace (createPost node_ok (overlong\<lparr>newPostContent := ''   ''\<rparr>) w0))"
  by (simp add: action_simps eval_simps node_ok_def overlong_def w0_def)

end
